theory Spec2Isabelle
  imports Complex_Main "HOL-Library.Log_Nat"
begin

section \<open>The light scheduler of LightController.ino\<close>

text \<open>
  The sketch keeps one table of light periods per channel (\<open>lightMatrix\<close>) and, on every
  pass of \<open>loop\<close>, recomputes the intensity of each channel from the time of day
  (\<open>UpdateLights\<close>). This theory embeds \<open>GetSeconds\<close> and \<open>UpdateLights\<close> as they are
  written and settles the properties stated about them.
\<close>

subsection \<open>Machine arithmetic\<close>

text \<open>
  The sketch is written for the AVR boards it names (the Uno): \<open>int\<close> has 16 bits,
  \<open>long\<close> has 32 bits and \<open>float\<close> is IEEE binary32. The source relies on these widths
  itself: \<open>GetSeconds\<close> casts \<open>hours\<close> to \<open>long\<close> before multiplying, and every time of
  day is held in a \<open>long\<close>, because 86400 does not fit an \<open>int\<close>.
  Values are mathematical integers here and every narrowing is written out:
  \<open>int16\<close> and \<open>long32\<close> reduce a value to the two's complement range of the type, which
  is what the compiler does when a \<open>long\<close> is stored in an \<open>int\<close>.
\<close>

definition int16 :: "int \<Rightarrow> int" where
  "int16 x = (x + 32768) mod 65536 - 32768"

definition long32 :: "int \<Rightarrow> int" where
  "long32 x = (x + 2147483648) mod 4294967296 - 2147483648"

text \<open>
  A \<open>float\<close> is the rational number it denotes. \<open>float_round\<close> rounds a rational to the
  nearest number with a 24-bit significand, ties to the even significand, which is what one
  IEEE operation does to its exact result. The exponent range is not modelled: a non-zero
  quotient of two \<open>int\<close>s has a magnitude between \<open>2\<^sup>-\<^sup>1\<^sup>5\<close> and \<open>2\<^sup>1\<^sup>5\<close>, and its product
  with a \<open>long\<close> stays below \<open>2\<^sup>4\<^sup>7\<close>, far inside the normal range.
\<close>

definition expo :: "rat \<Rightarrow> int" where
  \<comment> \<open>for \<open>0 < x\<close>: the exponent \<open>e\<close> with \<open>2\<^sup>e \<le> x < 2\<^sup>e\<^sup>+\<^sup>1\<close>\<close>
  "expo x = (if 1 \<le> x then bitlen \<lfloor>x\<rfloor> - 1 else - bitlen (\<lceil>1 / x\<rceil> - 1))"

definition ulp :: "rat \<Rightarrow> rat" where
  \<comment> \<open>the weight of the last of the 24 bits of the significand\<close>
  "ulp x = 2 powi (expo x - 23)"

definition nearest_even :: "rat \<Rightarrow> int" where
  "nearest_even m =
     (let f = \<lfloor>m\<rfloor>; r = m - of_int f
      in if r < 1 / 2 then f else if 1 / 2 < r then f + 1 else if even f then f else f + 1)"

definition float_round :: "rat \<Rightarrow> rat" where
  "float_round x =
     (if x = 0 then 0
      else if 0 < x then of_int (nearest_even (x / ulp x)) * ulp x
      else - (of_int (nearest_even (- x / ulp (- x))) * ulp (- x)))"

definition to_float :: "int \<Rightarrow> rat" where
  \<comment> \<open>the conversion of an integer operand to \<open>float\<close>\<close>
  "to_float n = float_round (of_int n)"

definition fdiv :: "rat \<Rightarrow> rat \<Rightarrow> rat" where
  \<comment> \<open>\<open>a / b\<close> on \<open>float\<close>s, for \<open>b \<noteq> 0\<close>\<close>
  "fdiv a b = float_round (a / b)"

definition fmul :: "rat \<Rightarrow> rat \<Rightarrow> rat" where
  \<comment> \<open>\<open>a * b\<close> on \<open>float\<close>s\<close>
  "fmul a b = float_round (a * b)"

datatype fault =
    OutOfBounds \<comment> \<open>an array was indexed beyond its end\<close>
  | Undefined \<comment> \<open>a \<open>float\<close> that has no \<open>int\<close> value was converted to \<open>int\<close>\<close>

definition truncate :: "rat \<Rightarrow> int" where
  \<comment> \<open>the integer part, towards zero\<close>
  "truncate y = (if 0 \<le> y then \<lfloor>y\<rfloor> else \<lceil>y\<rceil>)"

definition float_to_int :: "rat \<Rightarrow> fault + int" where
  \<comment> \<open>the cast \<open>(int)y\<close>: defined when the integer part fits an \<open>int\<close>\<close>
  "float_to_int y =
     (let n = truncate y in if - 32768 \<le> n \<and> n \<le> 32767 then Inr n else Inl Undefined)"

subsection \<open>The schedule\<close>

definition CHANNELS :: nat where
  "CHANNELS = 2"

definition MAXPERIODS :: nat where
  "MAXPERIODS = 5"

text \<open>
  A row of the table is \<open>{HourStart, MinuteStart, HourEnd, MinuteEnd, Intensity}\<close>; the
  source reads its five cells through the indices \<open>START_H\<close> ... \<open>INTENSITY\<close>.
\<close>

type_synonym row = "int \<times> int \<times> int \<times> int \<times> int"

fun START_H :: "row \<Rightarrow> int" where
  "START_H (sh, sm, eh, em, v) = sh"

fun START_M :: "row \<Rightarrow> int" where
  "START_M (sh, sm, eh, em, v) = sm"

fun END_H :: "row \<Rightarrow> int" where
  "END_H (sh, sm, eh, em, v) = eh"

fun END_M :: "row \<Rightarrow> int" where
  "END_M (sh, sm, eh, em, v) = em"

fun INTENSITY :: "row \<Rightarrow> int" where
  "INTENSITY (sh, sm, eh, em, v) = v"

definition lightMatrix :: "row list list" where
  "lightMatrix =
     [[(0, 0, 8, 0, 0),
       (8, 30, 11, 0, 255),
       (11, 10, 13, 0, 0),
       (13, 10, 20, 0, 255),
       (20, 30, 24, 0, 0)],
      [(0, 0, 7, 45, 0),
       (8, 0, 11, 0, 255),
       (11, 10, 13, 0, 0),
       (13, 10, 20, 30, 255),
       (20, 45, 24, 0, 0)]]"

subsection \<open>GetSeconds and UpdateLights\<close>

definition GetSeconds :: "int \<Rightarrow> int \<Rightarrow> int \<Rightarrow> int" where
  \<comment> \<open>\<open>((long)hours * 60 * 60) + (minutes * 60) + seconds\<close>; the middle product is an \<open>int\<close>\<close>
  "GetSeconds hours minutes seconds =
     long32 (long32 (long32 (long32 (hours * 60) * 60) + int16 (minutes * 60)) + seconds)"

definition row_at :: "row list \<Rightarrow> nat \<Rightarrow> fault + row" where
  \<comment> \<open>\<open>lightMatrix[channel][period]\<close>, a fault beyond the last row of the channel\<close>
  "row_at rows period = (if period < length rows then Inr (rows ! period) else Inl OutOfBounds)"

definition ramp :: "int \<Rightarrow> int \<Rightarrow> int \<Rightarrow> fault + int" where
  \<comment> \<open>\<open>(int)(elapsed * ((float)diff / tDur))\<close>; dividing by zero gives an infinity or a
      NaN, which has no \<open>int\<close> value\<close>
  "ramp elapsed diff tDur =
     (if tDur = 0 then Inl Undefined
      else float_to_int (fmul (to_float elapsed) (fdiv (to_float diff) (to_float tDur))))"

definition transition :: "int \<Rightarrow> int \<Rightarrow> int \<Rightarrow> int \<Rightarrow> int \<Rightarrow> fault + int" where
  \<comment> \<open>the body of \<open>if(pNextStart > seconds)\<close>: the value between two periods\<close>
  "transition seconds pEnd pNextStart preVal postVal =
     (let tDur = int16 (long32 (pNextStart - pEnd));
          intensityDiff = int16 (postVal - preVal)
      in if intensityDiff > 0 then ramp (long32 (seconds - pEnd)) intensityDiff tDur
         else
           (case ramp (long32 (seconds - pEnd)) (int16 (0 - intensityDiff)) tDur of
              Inl e \<Rightarrow> Inl e
            | Inr d \<Rightarrow> Inr (int16 (preVal - d))))"

text \<open>
  The inner loop, \<open>for(int period = 0; period < MAXPERIODS; period++)\<close>. It returns the
  value it assigns to \<open>lightValue[channel]\<close> before its \<open>break\<close>, or \<open>None\<close> when it
  runs to \<open>MAXPERIODS\<close> without assigning.
\<close>

function period_loop :: "row list \<Rightarrow> int \<Rightarrow> nat \<Rightarrow> fault + int option" where
  "period_loop rows seconds period =
     (if period < MAXPERIODS then
        (case row_at rows period of
           Inl e \<Rightarrow> Inl e
         | Inr cur \<Rightarrow>
             let pEnd = GetSeconds (END_H cur) (END_M cur) 0
             in if pEnd \<ge> seconds then Inr (Some (INTENSITY cur))
                else
                  (case row_at rows (period + 1) of
                     Inl e \<Rightarrow> Inl e
                   | Inr nxt \<Rightarrow>
                       let pNextStart = GetSeconds (START_H nxt) (START_M nxt) 0
                       in if pNextStart > seconds then
                            (case transition seconds pEnd pNextStart (INTENSITY cur) (INTENSITY nxt) of
                               Inl e \<Rightarrow> Inl e
                             | Inr v \<Rightarrow> Inr (Some v))
                          else period_loop rows seconds (period + 1)))
      else Inr None)"
  by pat_completeness auto
termination
  by (relation "measure (\<lambda>(rows, seconds, period). MAXPERIODS - period)") auto

declare period_loop.simps [simp del]

definition update_channel :: "row list list \<Rightarrow> int \<Rightarrow> nat \<Rightarrow> int list \<Rightarrow> fault + int list" where
  \<comment> \<open>one pass of the outer loop: \<open>lightValue[channel]\<close> is written when a period is found\<close>
  "update_channel matrix seconds channel lightValue =
     (if channel < length matrix \<and> channel < length lightValue then
        (case period_loop (matrix ! channel) seconds 0 of
           Inl e \<Rightarrow> Inl e
         | Inr None \<Rightarrow> Inr lightValue
         | Inr (Some v) \<Rightarrow> Inr (lightValue[channel := v]))
      else Inl OutOfBounds)"

text \<open>
  The outer loop visits the channels of a list in turn; \<open>UpdateLights\<close> visits
  \<open>0, ..., CHANNELS - 1\<close>. The list is a parameter so that the order of the visits can be
  varied.
\<close>

fun channel_loop :: "nat list \<Rightarrow> row list list \<Rightarrow> int \<Rightarrow> int list \<Rightarrow> fault + int list" where
  "channel_loop [] matrix seconds lightValue = Inr lightValue"
| "channel_loop (channel # rest) matrix seconds lightValue =
     (case update_channel matrix seconds channel lightValue of
        Inl e \<Rightarrow> Inl e
      | Inr lightValue' \<Rightarrow> channel_loop rest matrix seconds lightValue')"

definition UpdateLights :: "row list list \<Rightarrow> int \<Rightarrow> int list \<Rightarrow> fault + int list" where
  \<comment> \<open>\<open>for(int channel = 0; channel < CHANNELS; channel++)\<close>\<close>
  "UpdateLights matrix seconds lightValue = channel_loop [0..<CHANNELS] matrix seconds lightValue"

subsection \<open>Valid schedules\<close>

text \<open>
  The start and the end of a period are what \<open>UpdateLights\<close> computes from a row with
  \<open>GetSeconds\<close>. The terminal period is the first row that ends at 24:00 ("any row
  ending with 24:00 will be considered last"); the rows after it are fillers. A period is
  an interval: it does not end before it starts.
\<close>

definition period_start :: "row \<Rightarrow> int" where
  "period_start r = GetSeconds (START_H r) (START_M r) 0"

definition period_end :: "row \<Rightarrow> int" where
  "period_end r = GetSeconds (END_H r) (END_M r) 0"

definition terminal :: "row list \<Rightarrow> nat" where
  "terminal rows = length (takeWhile (\<lambda>r. period_end r \<noteq> 86400) rows)"

definition chronological :: "row list \<Rightarrow> nat \<Rightarrow> bool" where
  \<comment> \<open>rows \<open>0..k\<close> are intervals in chronological order that do not overlap\<close>
  "chronological rows k \<longleftrightarrow>
     k < length rows \<and>
     (\<forall>i \<in> {0..k}. period_start (rows ! i) \<le> period_end (rows ! i)) \<and>
     (\<forall>i \<in> {0..<k}. period_end (rows ! i) \<le> period_start (rows ! (i + 1)))"

definition valid_schedule :: "row list \<Rightarrow> bool" where
  \<comment> \<open>the rules in the comments above \<open>lightMatrix\<close>: a row for each of the \<open>MAXPERIODS\<close>
      periods, the first start 00:00, some end 24:00, chronological rows without
      overlaps, intensities from 0 to 255\<close>
  "valid_schedule rows \<longleftrightarrow>
     length rows = MAXPERIODS \<and>
     terminal rows < MAXPERIODS \<and>
     period_start (rows ! 0) = 0 \<and>
     chronological rows (terminal rows) \<and>
     (\<forall>i \<in> {0..terminal rows}. 0 \<le> INTENSITY (rows ! i) \<and> INTENSITY (rows ! i) \<le> 255)"

definition valid_matrix :: "row list list \<Rightarrow> bool" where
  "valid_matrix matrix \<longleftrightarrow>
     length matrix = CHANNELS \<and> (\<forall>channel \<in> {0..<CHANNELS}. valid_schedule (matrix ! channel))"

subsection \<open>The interpolation formula of the specification\<close>

text \<open>
  The specification gives the value inside a transition by one formula on integers,
  \<open>periods[i].intensity + round_toward_zero(elapsed * delta / gapDuration)\<close>.
  \<open>spec_intensity\<close> is that formula. \<open>unified_float\<close> is the same formula with the
  quotient \<open>delta / gapDuration\<close> and then the product each rounded to \<open>float\<close>, the
  arithmetic of the source.
\<close>

definition spec_intensity :: "int \<Rightarrow> int \<Rightarrow> int \<Rightarrow> int \<Rightarrow> int" where
  "spec_intensity preVal elapsed delta gapDuration =
     preVal + truncate (of_int (elapsed * delta) / of_int gapDuration)"

definition unified_float :: "int \<Rightarrow> int \<Rightarrow> int \<Rightarrow> int \<Rightarrow> int" where
  "unified_float preVal elapsed delta gapDuration =
     preVal + truncate (fmul (to_float elapsed) (fdiv (to_float delta) (to_float gapDuration)))"

section \<open>Properties\<close>

subsection \<open>Arithmetic inside the range of the types\<close>

lemma int16_id: "- 32768 \<le> x \<Longrightarrow> x \<le> 32767 \<Longrightarrow> int16 x = x"
  by (simp add: int16_def)

lemma long32_id: "- 2147483648 \<le> x \<Longrightarrow> x \<le> 2147483647 \<Longrightarrow> long32 x = x"
  by (simp add: long32_def)

text \<open>
  On the hours, minutes and seconds of a clock \<open>GetSeconds\<close> is the number of seconds
  since midnight; 24:00 is 86400.
\<close>

lemma GetSeconds_in_range:
  assumes "0 \<le> hours" "hours \<le> 24" "0 \<le> minutes" "minutes \<le> 59"
    "0 \<le> seconds" "seconds \<le> 59"
  shows "GetSeconds hours minutes seconds = hours * 3600 + minutes * 60 + seconds"
proof -
  have m: "int16 (minutes * 60) = minutes * 60"
    using assms(3,4) by (intro int16_id) auto
  have h1: "long32 (hours * 60) = hours * 60"
    using assms(1,2) by (intro long32_id) auto
  have e: "hours * 60 * 60 = hours * 3600" by simp
  have h2: "long32 (hours * 60 * 60) = hours * 3600"
    unfolding e using assms(1,2) by (intro long32_id) auto
  have s1: "long32 (hours * 3600 + minutes * 60) = hours * 3600 + minutes * 60"
    using assms(1-4) by (intro long32_id) auto
  have s2: "long32 (hours * 3600 + minutes * 60 + seconds) =
              hours * 3600 + minutes * 60 + seconds"
    using assms by (intro long32_id) auto
  show ?thesis unfolding GetSeconds_def h1 m h2 s1 s2 ..
qed

subsection \<open>One pass of the period loop\<close>

lemma period_loop_select:
  assumes "period < MAXPERIODS" "period < length rows" "seconds \<le> period_end (rows ! period)"
  shows "period_loop rows seconds period = Inr (Some (INTENSITY (rows ! period)))"
  using assms by (subst period_loop.simps) (simp add: row_at_def period_end_def)

lemma period_loop_next:
  assumes "period < MAXPERIODS" "Suc period < length rows"
    "period_end (rows ! period) < seconds" "period_start (rows ! Suc period) \<le> seconds"
  shows "period_loop rows seconds period = period_loop rows seconds (Suc period)"
  using assms by (subst period_loop.simps) (simp add: row_at_def period_end_def period_start_def)

lemma period_loop_gap:
  assumes "period < MAXPERIODS" "Suc period < length rows"
    "period_end (rows ! period) < seconds" "seconds < period_start (rows ! Suc period)"
  shows "period_loop rows seconds period =
           (case transition seconds (period_end (rows ! period)) (period_start (rows ! Suc period))
                   (INTENSITY (rows ! period)) (INTENSITY (rows ! Suc period)) of
              Inl e \<Rightarrow> Inl e | Inr v \<Rightarrow> Inr (Some v))"
  using assms by (subst period_loop.simps) (simp add: row_at_def period_end_def period_start_def)

lemma period_loop_skip:
  assumes "i < MAXPERIODS" "i < length rows" "p \<le> i"
    "\<And>j. p \<le> j \<Longrightarrow> j < i \<Longrightarrow>
       period_end (rows ! j) < seconds \<and> period_start (rows ! Suc j) \<le> seconds"
  shows "period_loop rows seconds p = period_loop rows seconds i"
  using assms(3,4)
proof (induction rule: inc_induct)
  case base
  show ?case by simp
next
  case (step n)
  have "period_loop rows seconds n = period_loop rows seconds (Suc n)"
    using step.hyps step.prems[of n] assms(1,2) by (intro period_loop_next) auto
  also have "\<dots> = period_loop rows seconds i"
    using step.prems by (intro step.IH) auto
  finally show ?case .
qed

text \<open>
  The loop as a case analysis: started at or before a row \<open>k\<close> that ends at or after
  \<open>seconds\<close>, it stops at a row up to \<open>k\<close>, either inside a period or between two
  periods.
\<close>

lemma period_loop_cases [consumes 4, case_names select gap]:
  assumes "k < MAXPERIODS" "k < length rows" "seconds \<le> period_end (rows ! k)" "p \<le> k"
    and sel: "\<And>i. p \<le> i \<Longrightarrow> i \<le> k \<Longrightarrow> seconds \<le> period_end (rows ! i) \<Longrightarrow>
                P (Inr (Some (INTENSITY (rows ! i))))"
    and gap: "\<And>i. p \<le> i \<Longrightarrow> i < k \<Longrightarrow> period_end (rows ! i) < seconds \<Longrightarrow>
                seconds < period_start (rows ! Suc i) \<Longrightarrow>
                P (case transition seconds (period_end (rows ! i)) (period_start (rows ! Suc i))
                          (INTENSITY (rows ! i)) (INTENSITY (rows ! Suc i)) of
                     Inl e \<Rightarrow> Inl e | Inr v \<Rightarrow> Inr (Some v))"
  shows "P (period_loop rows seconds p)"
  using assms(4) sel gap
proof (induction rule: inc_induct)
  case base
  show ?case using assms(1-3) base(1)[of k] by (simp add: period_loop_select)
next
  case (step n)
  have n: "n < MAXPERIODS" "n < length rows" "Suc n < length rows"
    using step.hyps assms(1,2) by auto
  consider (inside) "seconds \<le> period_end (rows ! n)"
    | (between) "period_end (rows ! n) < seconds" "seconds < period_start (rows ! Suc n)"
    | (later) "period_end (rows ! n) < seconds" "period_start (rows ! Suc n) \<le> seconds"
    by linarith
  then show ?case
  proof cases
    case inside
    then show ?thesis using n step.prems(1)[of n] step.hyps by (simp add: period_loop_select)
  next
    case between
    then show ?thesis using n step.prems(2)[of n] step.hyps by (simp add: period_loop_gap)
  next
    case later
    have "P (period_loop rows seconds (Suc n))"
      using step.prems by (intro step.IH) auto
    then show ?thesis using later n by (simp add: period_loop_next)
  qed
qed

lemma ramp_in_bounds: "ramp elapsed diff tDur \<noteq> Inl OutOfBounds"
  by (simp add: ramp_def float_to_int_def Let_def)

lemma transition_in_bounds:
  "transition seconds pEnd pNextStart preVal postVal \<noteq> Inl OutOfBounds"
  using ramp_in_bounds by (auto simp add: transition_def Let_def split: sum.splits)

lemma period_loop_stops:
  assumes "k < MAXPERIODS" "k < length rows" "seconds \<le> period_end (rows ! k)" "p \<le> k"
  shows "period_loop rows seconds p \<noteq> Inl OutOfBounds \<and> period_loop rows seconds p \<noteq> Inr None"
  using assms
proof (induction rule: period_loop_cases)
  case (select i)
  show ?case by simp
next
  case (gap i)
  show ?case using transition_in_bounds by (auto split: sum.splits)
qed

text \<open>
  A run on a table cut after its first \<open>n\<close> rows that meets no fault has read none of the
  rows that were cut off, so the whole table gives the same result.
\<close>

lemma row_at_take:
  "row_at (take n rows) i = (if i < n then row_at rows i else Inl OutOfBounds)"
  by (simp add: row_at_def)

lemma period_loop_take:
  assumes "period_loop (take n rows) seconds period \<noteq> Inl OutOfBounds"
  shows "period_loop rows seconds period = period_loop (take n rows) seconds period"
  using assms
proof (induction rows seconds period rule: period_loop.induct)
  case (1 rows seconds period)
  note unfold = period_loop.simps[of rows seconds period]
    period_loop.simps[of "take n rows" seconds period]
  show ?case
  proof (cases "period < MAXPERIODS")
    case False
    then show ?thesis by (simp add: unfold)
  next
    case True
    show ?thesis
      using "1.prems" "1.IH" True
      by (auto simp add: unfold row_at_take Let_def split: sum.splits if_splits)
  qed
qed

lemma period_loop_truncated:
  assumes "k < MAXPERIODS" "k < length rows" "seconds \<le> period_end (rows ! k)"
  shows "period_loop (take (Suc k) rows) seconds 0 = period_loop rows seconds 0"
proof -
  have "period_loop (take (Suc k) rows) seconds 0 \<noteq> Inl OutOfBounds"
    using assms period_loop_stops[of k "take (Suc k) rows" seconds 0] by simp
  then show ?thesis by (rule period_loop_take[symmetric])
qed

subsection \<open>Valid schedules\<close>

lemma chronological_end_mono:
  assumes "chronological rows k" "i \<le> j" "j \<le> k"
  shows "period_end (rows ! i) \<le> period_end (rows ! j)"
  using assms(2,3)
proof (induction rule: dec_induct)
  case base
  show ?case by simp
next
  case (step n)
  have "period_end (rows ! n) \<le> period_start (rows ! Suc n)"
    using assms(1) step by (simp add: chronological_def)
  moreover have "period_start (rows ! Suc n) \<le> period_end (rows ! Suc n)"
    using assms(1) step by (simp add: chronological_def)
  ultimately show ?case using step by simp
qed

lemma chronological_start_le_end:
  assumes "chronological rows k" "i \<le> j" "j \<le> k"
  shows "period_start (rows ! i) \<le> period_end (rows ! j)"
proof -
  have "period_start (rows ! i) \<le> period_end (rows ! i)"
    using assms by (simp add: chronological_def)
  with chronological_end_mono[OF assms] show ?thesis by simp
qed

lemma terminal_end:
  assumes "terminal rows < length rows"
  shows "period_end (rows ! terminal rows) = 86400"
  using nth_length_takeWhile[of "\<lambda>r. period_end r \<noteq> 86400" rows] assms
  by (simp add: terminal_def)

lemma before_terminal:
  assumes "i < terminal rows"
  shows "period_end (rows ! i) \<noteq> 86400"
proof -
  let ?P = "\<lambda>r. period_end r \<noteq> 86400"
  from assms have i: "i < length (takeWhile ?P rows)" by (simp add: terminal_def)
  then have "takeWhile ?P rows ! i \<in> set (takeWhile ?P rows)" by (rule nth_mem)
  then have "?P (takeWhile ?P rows ! i)" by (rule set_takeWhileD[THEN conjunct2])
  with i show ?thesis by (simp add: takeWhile_nth)
qed

lemma valid_terminal:
  assumes "valid_schedule rows"
  shows "terminal rows < MAXPERIODS" "terminal rows < length rows"
    "period_end (rows ! terminal rows) = 86400" "chronological rows (terminal rows)"
  using assms terminal_end[of rows] by (simp_all add: valid_schedule_def)

lemma valid_end_less:
  assumes "valid_schedule rows" "i < terminal rows"
  shows "period_end (rows ! i) < 86400"
proof -
  have "period_end (rows ! i) \<le> period_end (rows ! terminal rows)"
    using chronological_end_mono[OF valid_terminal(4)[OF assms(1)], of i "terminal rows"] assms(2)
    by simp
  with valid_terminal(3)[OF assms(1)] before_terminal[OF assms(2)] show ?thesis by simp
qed

lemma valid_intensity:
  assumes "valid_schedule rows" "i \<le> terminal rows"
  shows "0 \<le> INTENSITY (rows ! i)" "INTENSITY (rows ! i) \<le> 255"
  using assms by (simp_all add: valid_schedule_def)

lemma valid_matrix_channel:
  assumes "valid_matrix matrix" "c < CHANNELS"
  shows "valid_schedule (matrix ! c)"
  using assms by (simp add: valid_matrix_def)

lemma period_loop_at_end:
  assumes "chronological rows k" "k < MAXPERIODS" "i \<le> k"
    "\<And>j. j < i \<Longrightarrow> period_end (rows ! j) < period_end (rows ! i)"
  shows "period_loop rows (period_end (rows ! i)) 0 = Inr (Some (INTENSITY (rows ! i)))"
proof -
  have len: "i < length rows" "i < MAXPERIODS"
    using assms(1-3) by (auto simp: chronological_def)
  have "period_loop rows (period_end (rows ! i)) 0 = period_loop rows (period_end (rows ! i)) i"
  proof (rule period_loop_skip[OF len(2,1)])
    fix j assume j: "0 \<le> j" "j < i"
    have "period_start (rows ! Suc j) \<le> period_end (rows ! i)"
      using chronological_start_le_end[OF assms(1), of "Suc j" i] j assms(3) by simp
    with assms(4)[OF j(2)]
    show "period_end (rows ! j) < period_end (rows ! i) \<and>
          period_start (rows ! Suc j) \<le> period_end (rows ! i)" by simp
  qed simp
  also have "\<dots> = Inr (Some (INTENSITY (rows ! i)))"
    using len by (simp add: period_loop_select)
  finally show ?thesis .
qed

lemma valid_first_period:
  assumes "valid_schedule rows" "seconds \<le> 0"
  shows "period_loop rows seconds 0 = Inr (Some (INTENSITY (rows ! 0)))"
proof -
  note k = valid_terminal[OF assms(1)]
  have "period_start (rows ! 0) \<le> period_end (rows ! 0)"
    using k(4) by (simp add: chronological_def)
  then have "seconds \<le> period_end (rows ! 0)"
    using assms by (simp add: valid_schedule_def)
  then show ?thesis using k(1,2) by (intro period_loop_select) auto
qed

lemma valid_end_of_day:
  assumes "valid_schedule rows"
  shows "period_loop rows 86400 0 = Inr (Some (INTENSITY (rows ! terminal rows)))"
proof -
  note k = valid_terminal[OF assms(1)]
  have "period_loop rows (period_end (rows ! terminal rows)) 0 =
          Inr (Some (INTENSITY (rows ! terminal rows)))"
  proof (rule period_loop_at_end[OF k(4) k(1)])
    fix j assume "j < terminal rows"
    then show "period_end (rows ! j) < period_end (rows ! terminal rows)"
      using valid_end_less[OF assms] k(3) by simp
  qed simp
  then show ?thesis using k(3) by simp
qed

lemma period_loop_in_gap:
  assumes "valid_schedule rows" "i < terminal rows"
    "period_end (rows ! i) < seconds" "seconds < period_start (rows ! Suc i)"
  shows "period_loop rows seconds 0 =
           (case transition seconds (period_end (rows ! i)) (period_start (rows ! Suc i))
                   (INTENSITY (rows ! i)) (INTENSITY (rows ! Suc i)) of
              Inl e \<Rightarrow> Inl e | Inr v \<Rightarrow> Inr (Some v))"
proof -
  note k = valid_terminal[OF assms(1)]
  have len: "i < MAXPERIODS" "i < length rows" "Suc i < length rows"
    using k(1,2) assms(2) by auto
  have "period_loop rows seconds 0 = period_loop rows seconds i"
  proof (rule period_loop_skip[OF len(1,2)])
    fix j assume j: "0 \<le> j" "j < i"
    have "period_end (rows ! j) \<le> period_end (rows ! i)"
      using chronological_end_mono[OF k(4), of j i] j assms(2) by simp
    moreover have "period_start (rows ! Suc j) \<le> period_end (rows ! i)"
      using chronological_start_le_end[OF k(4), of "Suc j" i] j assms(2) by simp
    ultimately show "period_end (rows ! j) < seconds \<and> period_start (rows ! Suc j) \<le> seconds"
      using assms(3) by simp
  qed simp
  also have "\<dots> = (case transition seconds (period_end (rows ! i)) (period_start (rows ! Suc i))
                   (INTENSITY (rows ! i)) (INTENSITY (rows ! Suc i)) of
              Inl e \<Rightarrow> Inl e | Inr v \<Rightarrow> Inr (Some v))"
    using len assms(3,4) by (intro period_loop_gap)
  finally show ?thesis .
qed

lemma lightMatrix_valid: "valid_matrix lightMatrix"
  by code_simp

lemma channel_0_valid: "valid_schedule (lightMatrix ! 0)"
  by code_simp

subsection \<open>The channel loop\<close>

lemma update_channel_Inr:
  assumes "update_channel matrix seconds channel lightValue = Inr mid"
  shows "channel < length matrix" "channel < length lightValue"
    "length mid = length lightValue"
    "\<exists>r. period_loop (matrix ! channel) seconds 0 = Inr r"
    "\<And>c. c < length lightValue \<Longrightarrow> mid ! c =
       (if c = channel
        then (case period_loop (matrix ! c) seconds 0 of Inr (Some v) \<Rightarrow> v | _ \<Rightarrow> lightValue ! c)
        else lightValue ! c)"
  using assms
  by (auto simp: update_channel_def split: sum.splits option.splits if_splits)

lemma channel_loop_nth:
  assumes "channel_loop order matrix seconds lightValue = Inr out"
  shows "length out = length lightValue \<and>
         (\<forall>c < length lightValue. out ! c =
            (if c \<in> set order
             then (case period_loop (matrix ! c) seconds 0 of Inr (Some v) \<Rightarrow> v | _ \<Rightarrow> lightValue ! c)
             else lightValue ! c))"
  using assms
proof (induction order arbitrary: lightValue)
  case Nil
  then show ?case by simp
next
  case (Cons channel rest)
  from Cons.prems obtain mid where
    mid: "update_channel matrix seconds channel lightValue = Inr mid"
    and rest: "channel_loop rest matrix seconds mid = Inr out"
    by (auto split: sum.splits)
  note IH = Cons.IH[OF rest] and upd = update_channel_Inr[OF mid]
  show ?case
    using IH upd(3,5) by (auto split: sum.splits option.splits)
qed

lemma channel_loop_channel_ran:
  assumes "channel_loop order matrix seconds lightValue = Inr out" "c \<in> set order"
  shows "\<exists>r. period_loop (matrix ! c) seconds 0 = Inr r"
  using assms
proof (induction order arbitrary: lightValue)
  case Nil
  then show ?case by simp
next
  case (Cons channel rest)
  from Cons.prems(1) obtain mid where
    mid: "update_channel matrix seconds channel lightValue = Inr mid"
    and rest: "channel_loop rest matrix seconds mid = Inr out"
    by (auto split: sum.splits)
  show ?case
  proof (cases "c = channel")
    case True
    then show ?thesis using update_channel_Inr(4)[OF mid] by simp
  next
    case False
    then show ?thesis using Cons.IH[OF rest] Cons.prems(2) by simp
  qed
qed

lemma channel_loop_runs:
  assumes "\<And>c. c \<in> set order \<Longrightarrow>
             c < length matrix \<and> c < length lightValue \<and>
             (\<exists>r. period_loop (matrix ! c) seconds 0 = Inr r)"
  shows "\<exists>out. channel_loop order matrix seconds lightValue = Inr out"
  using assms
proof (induction order arbitrary: lightValue)
  case Nil
  show ?case by simp
next
  case (Cons channel rest)
  from Cons.prems[of channel] obtain r where
    r: "channel < length matrix" "channel < length lightValue"
      "period_loop (matrix ! channel) seconds 0 = Inr r"
    by auto
  then obtain mid where mid: "update_channel matrix seconds channel lightValue = Inr mid"
    by (cases r) (auto simp: update_channel_def)
  have "length mid = length lightValue" by (rule update_channel_Inr(3)[OF mid])
  then obtain out where "channel_loop rest matrix seconds mid = Inr out"
    using Cons.IH[of mid] Cons.prems by auto
  with mid show ?case by simp
qed

lemma UpdateLights_resolved:
  assumes "length matrix = CHANNELS" "length lightValue = CHANNELS"
    "\<And>c. c < CHANNELS \<Longrightarrow> period_loop (matrix ! c) seconds 0 = Inr (Some (resolved c))"
  shows "UpdateLights matrix seconds lightValue = Inr (map resolved [0..<CHANNELS])"
proof -
  obtain out where out: "channel_loop [0..<CHANNELS] matrix seconds lightValue = Inr out"
    using channel_loop_runs[of "[0..<CHANNELS]" matrix lightValue seconds] assms by auto
  have "out = map resolved [0..<CHANNELS]"
  proof (rule nth_equalityI)
    show "length out = length (map resolved [0..<CHANNELS])"
      using channel_loop_nth[OF out] assms(2) by simp
  next
    fix c assume "c < length out"
    then have c: "c < CHANNELS" using channel_loop_nth[OF out] assms(2) by simp
    then show "out ! c = map resolved [0..<CHANNELS] ! c"
      using channel_loop_nth[OF out] assms(2) assms(3)[OF c] by simp
  qed
  with out show ?thesis by (simp add: UpdateLights_def)
qed

lemma map_channels:
  assumes "length matrix = CHANNELS"
  shows "map (\<lambda>c. f (matrix ! c)) [0..<CHANNELS] = map f matrix"
  using assms by (intro nth_equalityI) simp_all

subsection \<open>The schedule of the sketch\<close>

text \<open>
  C4. Channel 0 of \<open>lightMatrix\<close> is the schedule 0:00-8:00 at 0, 8:30-11:00 at 255,
  11:10-13:00 at 0, 13:10-20:00 at 255, 20:30-24:00 at 0. Resolving it gives 0 at
  07:59:59, 127 at 08:15:00 (half way through the fade from 0 to 255, which lasts 1800
  seconds), 255 at 08:30:00, 255 at 11:00:00 and 0 at 23:59:59. The second component of
  each result is what channel 1 gets at the same moment.
\<close>

theorem scenario_channel_0:
  "lightMatrix ! 0 =
     [(0, 0, 8, 0, 0), (8, 30, 11, 0, 255), (11, 10, 13, 0, 0), (13, 10, 20, 0, 255),
      (20, 30, 24, 0, 0)] \<and>
   UpdateLights lightMatrix (GetSeconds 7 59 59) [0, 0] = Inr [0, 254] \<and>
   UpdateLights lightMatrix (GetSeconds 8 15 0) [0, 0] = Inr [127, 255] \<and>
   UpdateLights lightMatrix (GetSeconds 8 30 0) [0, 0] = Inr [255, 255] \<and>
   UpdateLights lightMatrix (GetSeconds 11 0 0) [0, 0] = Inr [255, 255] \<and>
   UpdateLights lightMatrix (GetSeconds 23 59 59) [0, 0] = Inr [0, 0]"
proof -
  have table: "lightMatrix ! 0 =
     [(0, 0, 8, 0, 0), (8, 30, 11, 0, 255), (11, 10, 13, 0, 0), (13, 10, 20, 0, 255),
      (20, 30, 24, 0, 0)]"
    by (simp add: lightMatrix_def)
  have at_075959: "UpdateLights lightMatrix (GetSeconds 7 59 59) [0, 0] = Inr [0, 254]"
    by code_simp
  have at_081500: "UpdateLights lightMatrix (GetSeconds 8 15 0) [0, 0] = Inr [127, 255]"
    by code_simp
  have at_083000: "UpdateLights lightMatrix (GetSeconds 8 30 0) [0, 0] = Inr [255, 255]"
    by code_simp
  have at_110000: "UpdateLights lightMatrix (GetSeconds 11 0 0) [0, 0] = Inr [255, 255]"
    by code_simp
  have at_235959: "UpdateLights lightMatrix (GetSeconds 23 59 59) [0, 0] = Inr [0, 0]"
    by code_simp
  from table at_075959 at_081500 at_083000 at_110000 at_235959 show ?thesis
    by (intro conjI)
qed

subsection \<open>The scan stays inside the table\<close>

text \<open>
  C3. For a valid schedule and a time from 0 up to, but not including, 86400, the scan of
  the periods reads no row beyond the table: it meets no out-of-bounds fault, it does not
  run to \<open>MAXPERIODS\<close> without assigning a value, and it gives the same result on the
  table cut right after the terminal row. So no row after the terminal one is read, row
  \<open>period + 1\<close> of the terminal row in particular: the terminal row ends at 86400, which
  is at or after the time, and stops the scan.
\<close>

theorem scan_stays_in_table:
  assumes "valid_schedule rows" "0 \<le> seconds" "seconds < 86400"
  shows "period_loop rows seconds 0 \<noteq> Inl OutOfBounds \<and>
         period_loop rows seconds 0 \<noteq> Inr None \<and>
         period_loop (take (Suc (terminal rows)) rows) seconds 0 = period_loop rows seconds 0"
proof -
  note k = valid_terminal[OF assms(1)]
  have le: "seconds \<le> period_end (rows ! terminal rows)"
    using k(3) assms(3) by simp
  show ?thesis
    using period_loop_stops[OF k(1,2) le, of 0] period_loop_truncated[OF k(1,2) le] by simp
qed

text \<open>
  The always-on schedule of the source's comment, at noon: the first row is the terminal
  one and the four filler rows are never read.
\<close>

theorem scan_stays_in_table_witness:
  "valid_schedule
     [(0, 0, 24, 0, 255), (0, 0, 0, 0, 0), (0, 0, 0, 0, 0), (0, 0, 0, 0, 0), (0, 0, 0, 0, 0)] \<and>
   period_loop
     [(0, 0, 24, 0, 255), (0, 0, 0, 0, 0), (0, 0, 0, 0, 0), (0, 0, 0, 0, 0), (0, 0, 0, 0, 0)]
     43200 0 \<noteq> Inl OutOfBounds \<and>
   period_loop
     [(0, 0, 24, 0, 255), (0, 0, 0, 0, 0), (0, 0, 0, 0, 0), (0, 0, 0, 0, 0), (0, 0, 0, 0, 0)]
     43200 0 \<noteq> Inr None \<and>
   period_loop
     (take (Suc (terminal
        [(0, 0, 24, 0, 255), (0, 0, 0, 0, 0), (0, 0, 0, 0, 0), (0, 0, 0, 0, 0), (0, 0, 0, 0, 0)]))
        [(0, 0, 24, 0, 255), (0, 0, 0, 0, 0), (0, 0, 0, 0, 0), (0, 0, 0, 0, 0), (0, 0, 0, 0, 0)])
     43200 0 =
   period_loop
     [(0, 0, 24, 0, 255), (0, 0, 0, 0, 0), (0, 0, 0, 0, 0), (0, 0, 0, 0, 0), (0, 0, 0, 0, 0)]
     43200 0"
proof -
  have v: "valid_schedule
     [(0, 0, 24, 0, 255), (0, 0, 0, 0, 0), (0, 0, 0, 0, 0), (0, 0, 0, 0, 0), (0, 0, 0, 0, 0)]"
    by code_simp
  from scan_stays_in_table[OF v, of 43200] v show ?thesis by simp
qed

subsection \<open>The end of a period belongs to the period\<close>

text \<open>
  C6. In a valid schedule, resolving at exactly the end of a period gives the intensity
  of that period, not a value of the transition that follows, for every period up to the
  terminal one that the scan reaches at that moment, that is, whose end is later than the
  end of every earlier period (which holds for every period when the gaps between periods
  are positive). Resolving at \<open>t = 0\<close> gives the intensity of the first period.
\<close>

theorem period_end_belongs_to_period:
  assumes "valid_schedule rows" "i \<le> terminal rows"
    "\<forall>j < i. period_end (rows ! j) < period_end (rows ! i)"
  shows "period_loop rows (period_end (rows ! i)) 0 = Inr (Some (INTENSITY (rows ! i))) \<and>
         period_loop rows 0 0 = Inr (Some (INTENSITY (rows ! 0)))"
  using period_loop_at_end[OF valid_terminal(4,1)[OF assms(1)] assms(2)] assms(3)
    valid_first_period[OF assms(1), of 0] by simp

theorem period_end_belongs_to_period_witness:
  "valid_schedule (lightMatrix ! 0) \<and> (3::nat) \<le> terminal (lightMatrix ! 0) \<and>
   period_end (lightMatrix ! 0 ! 3) = 72000 \<and> INTENSITY (lightMatrix ! 0 ! 3) = 255 \<and>
   period_loop (lightMatrix ! 0) 72000 0 = Inr (Some 255) \<and>
   period_loop (lightMatrix ! 0) 0 0 = Inr (Some 0)"
proof -
  have t: "(3::nat) \<le> terminal (lightMatrix ! 0)" by code_simp
  have e: "period_end (lightMatrix ! 0 ! 3) = 72000" "INTENSITY (lightMatrix ! 0 ! 3) = 255"
    "INTENSITY (lightMatrix ! 0 ! 0) = 0"
    by code_simp+
  have s: "\<forall>j < 3. period_end (lightMatrix ! 0 ! j) < period_end (lightMatrix ! 0 ! 3)"
    by code_simp
  from period_end_belongs_to_period[OF channel_0_valid t s] channel_0_valid t e
  show ?thesis by simp
qed

subsection \<open>Times outside the day\<close>

text \<open>
  C10. At \<open>seconds = 86400\<close>, just outside the documented range of times,
  \<open>UpdateLights\<close> on a valid table still runs to its end, gives every channel the
  intensity of its terminal period and reads no row after a terminal row: the tables cut
  right after their terminal rows give the same result.
\<close>

theorem end_of_day_terminal_period:
  assumes "valid_matrix matrix" "length lightValue = CHANNELS"
  shows "UpdateLights matrix 86400 lightValue =
           Inr (map (\<lambda>rows. INTENSITY (rows ! terminal rows)) matrix) \<and>
         UpdateLights (map (\<lambda>rows. take (Suc (terminal rows)) rows) matrix) 86400 lightValue =
           UpdateLights matrix 86400 lightValue"
proof -
  let ?f = "\<lambda>rows. INTENSITY (rows ! terminal rows)"
  let ?cut = "\<lambda>rows. take (Suc (terminal rows)) rows"
  have len: "length matrix = CHANNELS" using assms(1) by (simp add: valid_matrix_def)
  have "UpdateLights matrix 86400 lightValue = Inr (map (\<lambda>c. ?f (matrix ! c)) [0..<CHANNELS])"
    using valid_end_of_day valid_matrix_channel[OF assms(1)]
    by (intro UpdateLights_resolved len assms(2)) simp
  then have whole: "UpdateLights matrix 86400 lightValue = Inr (map ?f matrix)"
    using map_channels[OF len, of ?f] by simp
  have "UpdateLights (map ?cut matrix) 86400 lightValue =
          Inr (map (\<lambda>c. ?f (matrix ! c)) [0..<CHANNELS])"
  proof (rule UpdateLights_resolved)
    show "length (map ?cut matrix) = CHANNELS" using len by simp
    show "length lightValue = CHANNELS" by (rule assms(2))
  next
    fix c assume c: "c < CHANNELS"
    note v = valid_matrix_channel[OF assms(1) c]
    note k = valid_terminal[OF v]
    have "period_loop (?cut (matrix ! c)) 86400 0 = period_loop (matrix ! c) 86400 0"
      using k by (intro period_loop_truncated) simp_all
    then show "period_loop (map ?cut matrix ! c) 86400 0 = Inr (Some (?f (matrix ! c)))"
      using valid_end_of_day[OF v] c len by simp
  qed
  then have "UpdateLights (map ?cut matrix) 86400 lightValue = Inr (map ?f matrix)"
    using map_channels[OF len, of ?f] by simp
  with whole show ?thesis by simp
qed

theorem end_of_day_terminal_period_witness:
  "valid_matrix lightMatrix \<and> length [255, 255 :: int] = CHANNELS \<and>
   UpdateLights lightMatrix 86400 [255, 255] = Inr [0, 0] \<and>
   UpdateLights (map (\<lambda>rows. take (Suc (terminal rows)) rows) lightMatrix) 86400 [255, 255] =
     Inr [0, 0]"
proof -
  have l: "length [255, 255 :: int] = CHANNELS" by code_simp
  have m: "map (\<lambda>rows. INTENSITY (rows ! terminal rows)) lightMatrix = [0, 0]"
    by code_simp
  from end_of_day_terminal_period[OF lightMatrix_valid l] m lightMatrix_valid l show ?thesis
    by simp
qed

text \<open>
  C5 says that a time outside 0 ... 86399 is rejected and the caller is told. The source
  has no such check and \<open>UpdateLights\<close> returns nothing: at \<open>seconds = -1\<close> the sketch's
  own table gives both channels the intensity 0 of their first periods, overwriting the
  255 they had.
\<close>

theorem negative_time_not_rejected:
  "UpdateLights lightMatrix (- 1) [255, 255] = Inr [0, 0]"
  by code_simp

text \<open>
  C5, as the code has it. No time is rejected. On a valid table every negative time gives
  each channel the intensity of its first period, and 86400 gives each channel the
  intensity of its terminal period.
\<close>

theorem out_of_range_time:
  assumes "valid_matrix matrix" "length lightValue = CHANNELS" "seconds < 0 \<or> seconds = 86400"
  shows "UpdateLights matrix seconds lightValue =
           Inr (map (\<lambda>rows. INTENSITY (rows ! (if seconds < 0 then 0 else terminal rows))) matrix)"
proof -
  let ?f = "\<lambda>rows. INTENSITY (rows ! (if seconds < 0 then 0 else terminal rows))"
  have len: "length matrix = CHANNELS" using assms(1) by (simp add: valid_matrix_def)
  have "UpdateLights matrix seconds lightValue = Inr (map (\<lambda>c. ?f (matrix ! c)) [0..<CHANNELS])"
  proof (rule UpdateLights_resolved[OF len assms(2)])
    fix c assume "c < CHANNELS"
    note v = valid_matrix_channel[OF assms(1) this]
    show "period_loop (matrix ! c) seconds 0 = Inr (Some (?f (matrix ! c)))"
      using assms(3) valid_first_period[OF v, of seconds] valid_end_of_day[OF v] by auto
  qed
  then show ?thesis using map_channels[OF len, of ?f] by simp
qed

theorem out_of_range_time_witness:
  "valid_matrix lightMatrix \<and> length [255, 255 :: int] = CHANNELS \<and>
   UpdateLights lightMatrix (- 5) [255, 255] = Inr [0, 0]"
proof -
  have l: "length [255, 255 :: int] = CHANNELS" by code_simp
  have m: "map (\<lambda>rows. INTENSITY (rows ! 0)) lightMatrix = [0, 0]"
    by code_simp
  from out_of_range_time[OF lightMatrix_valid l, of "- 5"] have
    "UpdateLights lightMatrix (- 5) [255, 255] = Inr [0, 0]" by (simp add: m)
  with lightMatrix_valid l show ?thesis by simp
qed

subsection \<open>Channels do not interact\<close>

text \<open>
  C9. The value a channel gets is a function of the time and of that channel's own table
  alone. Take a run of \<open>UpdateLights\<close>, and a second run at the same time that visits
  the channels in any order, on a table whose other channels may differ and from other
  previous values. For a channel \<open>c\<close> with the same valid schedule in both and a time in
  0 ... 86399, both runs give \<open>c\<close> the value that the scan of \<open>c\<close>'s own table gives.
\<close>

theorem channels_independent:
  assumes "UpdateLights matrix seconds lightValue = Inr out"
    and "channel_loop order matrix' seconds lightValue' = Inr out'"
    and "set order = {0..<CHANNELS}"
    and "length lightValue = CHANNELS" "length lightValue' = CHANNELS"
    and "c < CHANNELS" "matrix' ! c = matrix ! c"
    and "valid_schedule (matrix ! c)" "0 \<le> seconds" "seconds < 86400"
  shows "period_loop (matrix ! c) seconds 0 = Inr (Some (out ! c)) \<and> out' ! c = out ! c"
proof -
  note run = assms(1)[unfolded UpdateLights_def]
  have c: "c \<in> set [0..<CHANNELS]" "c \<in> set order" using assms(3,6) by simp_all
  note k = valid_terminal[OF assms(8)]
  have le: "seconds \<le> period_end (matrix ! c ! terminal (matrix ! c))"
    using k(3) assms(10) by simp
  from channel_loop_channel_ran[OF run c(1)] period_loop_stops[OF k(1,2) le, of 0]
  obtain v where v: "period_loop (matrix ! c) seconds 0 = Inr (Some v)"
    by (metis le0 not_Some_eq)
  have "out ! c = v"
    using channel_loop_nth[OF run] c(1) assms(4,6) v by simp
  moreover have "out' ! c = v"
    using channel_loop_nth[OF assms(2)] c(2) assms(5,6,7) v by simp
  ultimately show ?thesis using v by simp
qed

text \<open>
  The sketch's table at 08:15:00, against a run that visits channel 1 before channel 0 on
  a table whose channel 1 is always on at 9, from the previous values 7 and 7: channel 0
  gets 127 in both.
\<close>

theorem channels_independent_witness:
  "UpdateLights lightMatrix 29700 [0, 0] = Inr [127, 255] \<and>
   channel_loop [1, 0]
     [lightMatrix ! 0,
      [(0, 0, 24, 0, 9), (0, 0, 0, 0, 0), (0, 0, 0, 0, 0), (0, 0, 0, 0, 0), (0, 0, 0, 0, 0)]]
     29700 [7, 7] = Inr [127, 9] \<and>
   set [1, 0] = {0..<CHANNELS} \<and> valid_schedule (lightMatrix ! 0) \<and>
   period_loop (lightMatrix ! 0) 29700 0 = Inr (Some ([127, 255] ! 0)) \<and>
   [127, 9 :: int] ! 0 = [127, 255] ! 0"
proof -
  let ?m' = "[lightMatrix ! 0,
      [(0, 0, 24, 0, 9), (0, 0, 0, 0, 0), (0, 0, 0, 0, 0), (0, 0, 0, 0, 0), (0, 0, 0, 0, 0)]]"
  have a: "UpdateLights lightMatrix 29700 [0, 0] = Inr [127, 255]" by code_simp
  have b: "channel_loop [1, 0] ?m' 29700 [7, 7] = Inr [127, 9]" by code_simp
  have s: "set [1, 0] = {0..<CHANNELS}" by code_simp
  have l: "length [0, 0 :: int] = CHANNELS" "length [7, 7 :: int] = CHANNELS" "0 < CHANNELS"
    by code_simp+
  have e: "?m' ! 0 = lightMatrix ! 0" by simp
  from channels_independent[OF a b s l e channel_0_valid] a b s channel_0_valid
  show ?thesis by simp
qed

subsection \<open>Rounding to \<open>float\<close>\<close>

text \<open>
  What the proofs need of \<open>float_round\<close>: it is odd and monotone, it leaves an integer
  below \<open>2\<^sup>2\<^sup>4\<close> as it is, and its relative error is at most \<open>2\<^sup>-\<^sup>2\<^sup>4\<close>.
\<close>

lemma nearest_even_error: "\<bar>of_int (nearest_even m) - m\<bar> \<le> 1 / 2"
proof -
  have "of_int \<lfloor>m\<rfloor> \<le> m" "m < of_int \<lfloor>m\<rfloor> + 1" by linarith+
  then show ?thesis by (auto simp: nearest_even_def Let_def)
qed

lemma nearest_even_of_int [simp]: "nearest_even (of_int n) = n"
  by (simp add: nearest_even_def)

lemma nearest_even_mono:
  assumes "m \<le> m'"
  shows "nearest_even m \<le> nearest_even m'"
proof (cases "\<lfloor>m\<rfloor> = \<lfloor>m'\<rfloor>")
  case True
  then show ?thesis using assms by (auto simp: nearest_even_def Let_def)
next
  case False
  then have "\<lfloor>m\<rfloor> + 1 \<le> \<lfloor>m'\<rfloor>" using floor_mono[OF assms] by linarith
  moreover have "nearest_even m \<le> \<lfloor>m\<rfloor> + 1" by (auto simp: nearest_even_def Let_def)
  moreover have "\<lfloor>m'\<rfloor> \<le> nearest_even m'" by (auto simp: nearest_even_def Let_def)
  ultimately show ?thesis by linarith
qed

lemma expo_bounds:
  assumes "0 < x"
  shows "2 powi (expo x) \<le> x" "x < 2 powi (expo x + 1)"
proof -
  have "2 powi (expo x) \<le> x \<and> x < 2 powi (expo x + 1)"
  proof (cases "1 \<le> x")
    case True
    define n where "n = \<lfloor>x\<rfloor>"
    have n: "0 < n" "of_int n \<le> x" "x < of_int n + 1" using True by (auto simp: n_def) linarith+
    from bitlen_bounds[OF n(1)] have b: "2 ^ nat (bitlen n - 1) \<le> n" "n < 2 ^ nat (bitlen n)" by auto
    have b1: "1 \<le> bitlen n" using n(1) bitlen_eq_zero_iff[of n] bitlen_nonneg[of n] by linarith
    have e: "expo x = bitlen n - 1" using True by (simp add: expo_def n_def)
    have "(2::rat) powi (expo x) = of_int (2 ^ nat (bitlen n - 1))"
      using b1 by (simp add: e power_int_def)
    also have "\<dots> \<le> of_int n" using b(1) by (simp only: of_int_le_iff)
    finally have lo: "2 powi (expo x) \<le> x" using n(2) by simp
    have "n + 1 \<le> 2 ^ nat (bitlen n)" using b(2) by simp
    then have "(of_int (n + 1) :: rat) \<le> of_int (2 ^ nat (bitlen n))" by (simp only: of_int_le_iff)
    also have "\<dots> = 2 powi (expo x + 1)" using b1 by (simp add: e power_int_def)
    finally have "x < 2 powi (expo x + 1)" using n(3) by simp
    with lo show ?thesis by simp
  next
    case False
    define c where "c = \<lceil>1 / x\<rceil>"
    have y: "1 < 1 / x" using False assms by simp
    have c: "of_int c - 1 < 1 / x" "1 / x \<le> of_int c" by (auto simp: c_def) linarith+
    have c2: "2 \<le> c" using y c(2) by linarith
    then have cpos: "0 < c - 1" by simp
    from bitlen_bounds[OF cpos] have b: "2 ^ nat (bitlen (c - 1) - 1) \<le> c - 1" "c - 1 < 2 ^ nat (bitlen (c - 1))" by auto
    have b1: "1 \<le> bitlen (c - 1)" using cpos bitlen_eq_zero_iff[of "c - 1"] bitlen_nonneg[of "c - 1"] by linarith
    have e: "expo x = - bitlen (c - 1)" using False by (simp add: expo_def c_def)
    have "c \<le> 2 ^ nat (bitlen (c - 1))" using b(2) by simp
    then have "(of_int c :: rat) \<le> of_int (2 ^ nat (bitlen (c - 1)))" by (simp only: of_int_le_iff)
    also have "\<dots> = 2 ^ nat (bitlen (c - 1))" by simp
    finally have "1 / x \<le> 2 ^ nat (bitlen (c - 1))" using c(2) by linarith
    then have "1 \<le> 2 ^ nat (bitlen (c - 1)) * x" using assms by (simp add: field_simps)
    then have "1 / 2 ^ nat (bitlen (c - 1)) \<le> x" by (simp add: field_simps)
    moreover have "(2::rat) powi (expo x) = 1 / 2 ^ nat (bitlen (c - 1))"
      using b1 by (simp add: e power_int_def field_simps)
    ultimately have lo: "2 powi (expo x) \<le> x" by simp
    have "(of_int (2 ^ nat (bitlen (c - 1) - 1)) :: rat) \<le> of_int (c - 1)" using b(1) by (simp only: of_int_le_iff)
    moreover have "(of_int (2 ^ nat (bitlen (c - 1) - 1)) :: rat) = 2 ^ nat (bitlen (c - 1) - 1)" by simp
    moreover have "(of_int (c - 1) :: rat) = of_int c - 1" by simp
    ultimately have "(2::rat) ^ nat (bitlen (c - 1) - 1) < 1 / x" using c(1) by linarith
    then have "2 ^ nat (bitlen (c - 1) - 1) * x < 1" using assms by (simp add: field_simps)
    then have "x < 1 / 2 ^ nat (bitlen (c - 1) - 1)" by (simp add: field_simps)
    moreover have "(2::rat) powi (expo x + 1) = 1 / 2 ^ nat (bitlen (c - 1) - 1)"
    proof (cases "bitlen (c - 1) = 1")
      case True then show ?thesis by (simp add: e)
    next
      case False
      then have "- bitlen (c - 1) + 1 < 0" using b1 by simp
      then show ?thesis using b1 by (simp add: e power_int_def field_simps nat_diff_distrib)
    qed
    ultimately show ?thesis using lo by simp
  qed
  then show "2 powi (expo x) \<le> x" "x < 2 powi (expo x + 1)" by simp_all
qed

lemma ulp_pos: "0 < ulp x"
  by (simp add: ulp_def)

lemma float_round_neg: "float_round (- x) = - float_round x"
  by (simp add: float_round_def)

lemma float_round_zero [simp]: "float_round 0 = 0"
  by (simp add: float_round_def)

lemma float_round_nonneg:
  assumes "0 \<le> x"
  shows "0 \<le> float_round x"
proof (cases "x = 0")
  case True then show ?thesis by simp
next
  case False
  then have x: "0 < x" using assms by simp
  then have "0 \<le> x / ulp x" using ulp_pos[of x] by simp
  then have "nearest_even 0 \<le> nearest_even (x / ulp x)" by (rule nearest_even_mono)
  then have "0 \<le> nearest_even (x / ulp x)" by (simp add: nearest_even_def)
  then show ?thesis using x ulp_pos[of x] by (simp add: float_round_def)
qed

lemma float_round_error:
  assumes "0 < x"
  shows "\<bar>float_round x - x\<bar> \<le> x / 2 ^ 24"
proof -
  let ?u = "ulp x"
  have u: "0 < ?u" by (rule ulp_pos)
  have "float_round x - x = (of_int (nearest_even (x / ?u)) - x / ?u) * ?u"
    using assms u by (simp add: float_round_def field_simps)
  then have "\<bar>float_round x - x\<bar> = \<bar>of_int (nearest_even (x / ?u)) - x / ?u\<bar> * ?u"
    using u by (simp add: abs_mult)
  also have "\<dots> \<le> 1 / 2 * ?u"
    using nearest_even_error[of "x / ?u"] u by (intro mult_right_mono) simp_all
  also have "\<dots> = (2::rat) powi (expo x) / 2 ^ 24"
    by (simp add: ulp_def power_int_diff)
  also have "\<dots> \<le> x / 2 ^ 24"
    using expo_bounds(1)[OF assms] by (simp add: divide_right_mono)
  finally show ?thesis .
qed

lemma float_round_of_int:
  assumes "\<bar>n\<bar> < 2 ^ 24"
  shows "float_round (of_int n) = of_int n"
proof -
  have pos: "float_round (of_int m) = of_int m" if m: "0 < m" "m < 2 ^ 24" for m :: int
  proof -
    have e: "expo (of_int m) = bitlen m - 1" using m(1) by (simp add: expo_def)
    have b: "bitlen m \<le> 24" using m(2) by (simp add: bitlen_le_iff_power)
    define k where "k = nat (24 - bitlen m)"
    have u: "ulp (of_int m) = 1 / 2 ^ k"
      using b by (simp add: ulp_def e k_def power_int_def field_simps)
    have "of_int m / ulp (of_int m) = (of_int (m * 2 ^ k) :: rat)" by (simp add: u)
    then have "nearest_even (of_int m / ulp (of_int m)) = m * 2 ^ k"
      by (simp only: nearest_even_of_int)
    then show ?thesis using m(1) by (simp add: float_round_def u)
  qed
  consider "n = 0" | "0 < n" | "0 < - n" by linarith
  then show ?thesis
  proof cases
    case 1 then show ?thesis by simp
  next
    case 2 then show ?thesis using pos[of n] assms by simp
  next
    case 3
    then have "float_round (of_int (- n)) = of_int (- n)" using pos[of "- n"] assms by simp
    then show ?thesis using float_round_neg[of "of_int n"] by simp
  qed
qed

lemma float_round_mono:
  assumes "0 < x" "x \<le> y"
  shows "float_round x \<le> float_round y"
proof -
  have y: "0 < y" using assms by simp
  note bx = expo_bounds[OF assms(1)] and ey = expo_bounds[OF y]
  have "(2::rat) powi (expo x) < 2 powi (expo y + 1)" using bx(1) ey(2) assms(2) by linarith
  then have le: "expo x \<le> expo y"
    using power_int_increasing[of "expo y + 1" "expo x" "2::rat"] by force
  have fx: "float_round x = of_int (nearest_even (x / ulp x)) * ulp x"
    and fy: "float_round y = of_int (nearest_even (y / ulp y)) * ulp y"
    using assms(1) y by (simp_all add: float_round_def)
  show ?thesis
  proof (cases "expo x = expo y")
    case True
    then have u: "ulp x = ulp y" by (simp add: ulp_def)
    have "x / ulp y \<le> y / ulp y" using assms(2) ulp_pos[of y] by (simp add: divide_right_mono)
    then have "nearest_even (x / ulp y) \<le> nearest_even (y / ulp y)" by (rule nearest_even_mono)
    then show ?thesis using ulp_pos[of y] by (simp add: fx fy u)
  next
    case False
    then have lt: "expo x + 1 \<le> expo y" using le by simp
    have "x / ulp x \<le> 2 ^ 24"
      using bx(2) ulp_pos[of x] by (simp add: ulp_def power_int_diff power_int_add field_simps)
    then have "nearest_even (x / ulp x) \<le> nearest_even (of_int (2 ^ 24))"
      by (intro nearest_even_mono) simp
    then have "of_int (nearest_even (x / ulp x)) \<le> (2 ^ 24 :: rat)"
      by (simp only: nearest_even_of_int) (metis of_int_le_iff of_int_numeral of_int_power)
    then have "float_round x \<le> 2 ^ 24 * ulp x"
      using ulp_pos[of x] by (simp add: fx)
    also have "\<dots> = 2 powi (expo x + 1)"
      by (simp add: ulp_def power_int_diff power_int_add)
    also have "\<dots> \<le> 2 powi (expo y)" using lt by (intro power_int_increasing) simp_all
    also have "\<dots> = 2 ^ 23 * ulp y" by (simp add: ulp_def power_int_diff)
    also have "\<dots> \<le> float_round y"
    proof -
      have "2 ^ 23 \<le> y / ulp y"
        using ey(1) ulp_pos[of y] by (simp add: ulp_def power_int_diff field_simps)
      then have "nearest_even (of_int (2 ^ 23)) \<le> nearest_even (y / ulp y)"
        by (intro nearest_even_mono) simp
      then have "(2 ^ 23 :: rat) \<le> of_int (nearest_even (y / ulp y))"
        by (simp only: nearest_even_of_int) (metis of_int_le_iff of_int_numeral of_int_power)
      then show ?thesis using ulp_pos[of y] by (simp add: fy)
    qed
    finally show ?thesis .
  qed
qed

lemma float_round_mono0:
  assumes "0 \<le> x" "x \<le> y"
  shows "float_round x \<le> float_round y"
proof (cases "x = 0")
  case True
  then show ?thesis using float_round_nonneg[of y] assms by simp
next
  case False
  then show ?thesis using assms by (intro float_round_mono) simp_all
qed

subsection \<open>The value of a ramp\<close>

text \<open>
  \<open>ramp elapsed diff tDur\<close> for a duration that fits an \<open>int\<close>: the two roundings move
  the product by less than \<open>1 / tDur\<close>, so its integer part is that of the exact quotient
  \<open>elapsed * diff / tDur\<close>, except that it can fall one short when the quotient is an
  integer.
\<close>

lemma two_roundings:
  fixes a q0 :: rat
  assumes "0 \<le> a" "0 < q0"
  shows "0 \<le> float_round (a * float_round q0)"
    and "\<bar>float_round (a * float_round q0) - a * q0\<bar> \<le> a * q0 * (1 / 2 ^ 23 + 1 / 2 ^ 48)"
proof -
  let ?q = "float_round q0"
  let ?p = "a * ?q"
  let ?y = "float_round ?p"
  have q: "\<bar>?q - q0\<bar> \<le> q0 / 2 ^ 24" by (rule float_round_error[OF assms(2)])
  have q_nonneg: "0 \<le> ?q" using assms(2) by (intro float_round_nonneg) simp
  have p_nonneg: "0 \<le> ?p" using assms(1) q_nonneg by simp
  show "0 \<le> ?y" using p_nonneg by (rule float_round_nonneg)
  have px: "\<bar>?p - a * q0\<bar> \<le> a * q0 / 2 ^ 24"
  proof -
    have "\<bar>?p - a * q0\<bar> = a * \<bar>?q - q0\<bar>"
      using assms(1) by (simp add: abs_mult flip: right_diff_distrib)
    also have "\<dots> \<le> a * (q0 / 2 ^ 24)" using q assms(1) by (rule mult_left_mono)
    finally show ?thesis by simp
  qed
  have yp: "\<bar>?y - ?p\<bar> \<le> ?p / 2 ^ 24"
  proof (cases "?p = 0")
    case True
    show ?thesis unfolding True by simp
  next
    case False
    with p_nonneg have "0 < ?p" by linarith
    then show ?thesis by (rule float_round_error)
  qed
  have "?p \<le> a * q0 + a * q0 / 2 ^ 24" using px by linarith
  then have "?p / 2 ^ 24 \<le> (a * q0 + a * q0 / 2 ^ 24) / 2 ^ 24"
    by (simp add: divide_right_mono)
  with yp px have "\<bar>?y - a * q0\<bar> \<le> (a * q0 + a * q0 / 2 ^ 24) / 2 ^ 24 + a * q0 / 2 ^ 24"
    by linarith
  also have "\<dots> = a * q0 * (1 / 2 ^ 23 + 1 / 2 ^ 48)" by (simp add: field_simps)
  finally show "\<bar>?y - a * q0\<bar> \<le> a * q0 * (1 / 2 ^ 23 + 1 / 2 ^ 48)" .
qed

lemma floor_near_quotient:
  fixes y :: rat and n g :: int
  assumes "0 < g" "0 \<le> y" "\<bar>y * of_int g - of_int n\<bar> < 1"
  shows "\<lfloor>y\<rfloor> = n div g \<or> (g dvd n \<and> \<lfloor>y\<rfloor> = n div g - 1)"
proof -
  define k r where "k = n div g" and "r = n mod g"
  have n: "n = k * g + r" and r: "0 \<le> r" "r < g"
    using assms(1) by (simp_all add: k_def r_def)
  have gq: "(0::rat) < of_int g" using assms(1) by simp
  have lo: "of_int n - 1 < y * of_int g" and hi: "y * of_int g < of_int n + 1"
    using assms(3) by linarith+
  show ?thesis
  proof (cases "r = 0")
    case False
    then have "1 \<le> r" "r + 1 \<le> g" using r by simp_all
    then have "(of_int (k * g) :: rat) \<le> of_int (n - 1)" "(of_int (n + 1) :: rat) \<le> of_int (k * g + g)"
      unfolding of_int_le_iff by (simp_all add: n)
    then have "of_int k * of_int g \<le> (of_int n :: rat) - 1"
      "(of_int n :: rat) + 1 \<le> (of_int k + 1) * of_int g"
      by (simp_all add: algebra_simps)
    then have "of_int k * of_int g < y * of_int g" "y * of_int g < (of_int k + 1) * of_int g"
      using lo hi by linarith+
    then have "of_int k < y" "y < of_int k + 1" using gq by simp_all
    then have "\<lfloor>y\<rfloor> = k" by (simp add: floor_eq_iff)
    then show ?thesis by (simp add: k_def)
  next
    case True
    then have dvd: "g dvd n" by (simp add: r_def dvd_eq_mod_eq_0)
    have "(1::rat) \<le> of_int g" using assms(1) by simp
    then have "(of_int k - 1) * of_int g \<le> of_int n - (1::rat)" "of_int n + (1::rat) \<le> (of_int k + 1) * of_int g"
      using True by (simp_all add: n algebra_simps)
    then have "(of_int k - 1) * of_int g < y * of_int g" "y * of_int g < (of_int k + 1) * of_int g"
      using lo hi by linarith+
    then have "of_int k - 1 < y" "y < of_int k + 1" using gq by simp_all
    then have "\<lfloor>y\<rfloor> = k \<or> \<lfloor>y\<rfloor> = k - 1" by (simp add: floor_eq_iff) linarith
    then show ?thesis using dvd by (auto simp: k_def)
  qed
qed

lemma ramp_value:
  assumes "0 < tDur" "tDur \<le> 32767" "0 \<le> elapsed" "elapsed \<le> tDur" "0 \<le> diff" "diff \<le> 255"
  shows "\<exists>d. ramp elapsed diff tDur = Inr d \<and> 0 \<le> d \<and> d \<le> diff \<and>
           (d = elapsed * diff div tDur \<or> (tDur dvd elapsed * diff \<and> d = elapsed * diff div tDur - 1))"
proof -
  define y where "y = float_round (of_int elapsed * float_round (of_int diff / of_int tDur))"
  have conv: "to_float elapsed = of_int elapsed" "to_float diff = of_int diff" "to_float tDur = of_int tDur"
    unfolding to_float_def using assms by (auto intro!: float_round_of_int)
  have ramp: "ramp elapsed diff tDur = float_to_int y"
    using assms(1) by (simp add: ramp_def conv fmul_def fdiv_def y_def)
  have g: "(0::rat) < of_int tDur" using assms(1) by simp
  have near: "0 \<le> y \<and> \<bar>y * of_int tDur - of_int (elapsed * diff)\<bar> < 1"
  proof (cases "diff = 0")
    case True
    then show ?thesis by (simp add: y_def)
  next
    case False
    then have q0: "(0::rat) < of_int diff / of_int tDur" using assms(1,5) by simp
    have a: "(0::rat) \<le> of_int elapsed" using assms(3) by simp
    let ?x = "of_int elapsed * (of_int diff / of_int tDur) :: rat"
    note tr = two_roundings[OF a q0, folded y_def]
    have "elapsed * diff \<le> 32767 * 255"
      using assms by (intro mult_mono) auto
    then have N: "(of_int (elapsed * diff) :: rat) \<le> of_int (32767 * 255)"
      unfolding of_int_le_iff .
    have N0: "(0::rat) \<le> of_int (elapsed * diff)" using assms by simp
    have xg: "?x * of_int tDur = of_int (elapsed * diff)" using g by simp
    have "(y - ?x) * of_int tDur = y * of_int tDur - of_int (elapsed * diff)"
      using xg by (simp only: left_diff_distrib)
    then have "\<bar>y * of_int tDur - of_int (elapsed * diff)\<bar> = \<bar>(y - ?x) * of_int tDur\<bar>"
      by simp
    also have "\<dots> = \<bar>y - ?x\<bar> * of_int tDur"
      using g by (simp only: abs_mult abs_of_pos)
    also have "\<dots> \<le> ?x * (1 / 2 ^ 23 + 1 / 2 ^ 48) * of_int tDur"
      using tr(2) g by (intro mult_right_mono) simp_all
    also have "\<dots> = (?x * of_int tDur) * (1 / 2 ^ 23 + 1 / 2 ^ 48)"
      by (simp only: mult.assoc mult.commute mult.left_commute)
    also have "\<dots> = of_int (elapsed * diff) * (1 / 2 ^ 23 + 1 / 2 ^ 48)"
      by (simp only: xg)
    also have "\<dots> \<le> of_int (32767 * 255) * (1 / 2 ^ 23 + 1 / 2 ^ 48)"
      using N by (intro mult_right_mono) simp_all
    also have "\<dots> < 1" by simp
    finally show ?thesis using tr(1) by simp
  qed
  then have y0: "0 \<le> y" and close: "\<bar>y * of_int tDur - of_int (elapsed * diff)\<bar> < 1" by simp_all
  have fl: "\<lfloor>y\<rfloor> = elapsed * diff div tDur \<or> (tDur dvd elapsed * diff \<and> \<lfloor>y\<rfloor> = elapsed * diff div tDur - 1)"
    using floor_near_quotient[OF assms(1) y0 close] .
  have f0: "0 \<le> \<lfloor>y\<rfloor>" using y0 by simp
  have "elapsed * diff \<le> tDur * diff" using assms by (intro mult_right_mono) auto
  then have "elapsed * diff div tDur \<le> tDur * diff div tDur" by (rule zdiv_mono1) (rule assms(1))
  then have "elapsed * diff div tDur \<le> diff" using assms(1) by simp
  with fl have f1: "\<lfloor>y\<rfloor> \<le> diff" by auto
  have "- 32768 \<le> \<lfloor>y\<rfloor> \<and> \<lfloor>y\<rfloor> \<le> 32767" using f0 f1 assms(6) by linarith
  then have "float_to_int y = Inr \<lfloor>y\<rfloor>"
    using y0 by (simp only: float_to_int_def truncate_def Let_def if_True simp_thms)
  with ramp fl f0 f1 show ?thesis by simp
qed

lemma ramp_truncate:
  assumes "ramp e d g = Inr v"
  shows "v = truncate (fmul (to_float e) (fdiv (to_float d) (to_float g)))"
  using assms by (auto simp: ramp_def float_to_int_def Let_def split: if_splits)


lemma ramp_mono:
  assumes "0 \<le> diff" "0 < tDur" "0 \<le> e1" "e1 \<le> e2"
    "ramp e1 diff tDur = Inr a" "ramp e2 diff tDur = Inr b"
  shows "a \<le> b"
proof -
  let ?q = "fdiv (to_float diff) (to_float tDur)"
  have "0 \<le> to_float diff" "0 \<le> to_float tDur"
    using assms(1,2) by (simp_all add: to_float_def float_round_nonneg)
  then have q: "0 \<le> ?q" by (simp add: fdiv_def float_round_nonneg)
  have e: "0 \<le> to_float e1" "to_float e1 \<le> to_float e2"
    using assms(3,4) by (simp_all add: to_float_def float_round_nonneg float_round_mono0)
  then have "to_float e1 * ?q \<le> to_float e2 * ?q" "0 \<le> to_float e1 * ?q"
    using q by (simp_all add: mult_right_mono)
  then have m: "0 \<le> fmul (to_float e1) ?q" "fmul (to_float e1) ?q \<le> fmul (to_float e2) ?q"
    by (simp_all add: fmul_def float_round_nonneg float_round_mono0)
  then have "truncate (fmul (to_float e1) ?q) \<le> truncate (fmul (to_float e2) ?q)"
    by (simp add: truncate_def floor_mono)
  then show ?thesis using ramp_truncate[OF assms(5)] ramp_truncate[OF assms(6)] by simp
qed

subsection \<open>The value between two periods\<close>

lemma truncate_neg: "truncate (- y) = - truncate y"
  by (cases "y = 0") (auto simp: truncate_def ceiling_minus ceiling_def)

lemma truncate_quotient_nonneg:
  assumes "0 \<le> n" "0 < g"
  shows "truncate (of_int n / of_int g) = n div g"
  using assms by (simp add: truncate_def floor_divide_of_int_eq)

lemma truncate_quotient_nonpos:
  assumes "n \<le> 0" "0 < g"
  shows "truncate (of_int n / of_int g) = - (- n div g)"
proof -
  have "truncate (of_int n / of_int g) = - truncate (of_int (- n) / of_int g)"
    using truncate_neg[of "of_int (- n) / of_int g"] by simp
  then show ?thesis using truncate_quotient_nonneg[of "- n" g] assms by simp
qed

lemma float_product_neg:
  "fmul (to_float e) (fdiv (to_float (- d)) (to_float g)) =
   - fmul (to_float e) (fdiv (to_float d) (to_float g))"
  by (simp add: fmul_def fdiv_def to_float_def float_round_neg)

lemma transition_value:
  assumes "pEnd < seconds" "seconds < pNextStart" "pNextStart - pEnd \<le> 32767"
    "0 \<le> preVal" "preVal \<le> 255" "0 \<le> postVal" "postVal \<le> 255"
  shows "\<exists>d. ramp (seconds - pEnd) \<bar>postVal - preVal\<bar> (pNextStart - pEnd) = Inr d \<and>
           0 \<le> d \<and> d \<le> \<bar>postVal - preVal\<bar> \<and>
           (d = (seconds - pEnd) * \<bar>postVal - preVal\<bar> div (pNextStart - pEnd) \<or>
            (pNextStart - pEnd) dvd (seconds - pEnd) * \<bar>postVal - preVal\<bar> \<and>
            d = (seconds - pEnd) * \<bar>postVal - preVal\<bar> div (pNextStart - pEnd) - 1) \<and>
           transition seconds pEnd pNextStart preVal postVal =
             Inr (if 0 < postVal - preVal then d else preVal - d)"
proof -
  let ?e = "seconds - pEnd" and ?g = "pNextStart - pEnd" and ?m = "\<bar>postVal - preVal\<bar>"
  have g: "0 < ?g" "?g \<le> 32767" and e: "0 \<le> ?e" "?e \<le> ?g" and m: "0 \<le> ?m" "?m \<le> 255"
    using assms by auto
  from ramp_value[OF g e m] obtain d where
    d: "ramp ?e ?m ?g = Inr d" "0 \<le> d" "d \<le> ?m"
      "d = ?e * ?m div ?g \<or> (?g dvd ?e * ?m \<and> d = ?e * ?m div ?g - 1)"
    by blast
  have tDur: "int16 (long32 ?g) = ?g" using g by (simp add: long32_id int16_id)
  have el: "long32 ?e = ?e" using e g by (simp add: long32_id)
  have diff: "int16 (postVal - preVal) = postVal - preVal"
    using assms by (simp add: int16_id)
  have "transition seconds pEnd pNextStart preVal postVal =
          Inr (if 0 < postVal - preVal then d else preVal - d)"
  proof (cases "0 < postVal - preVal")
    case True
    then have "?m = postVal - preVal" by simp
    then show ?thesis using True d(1) by (simp add: transition_def tDur el diff)
  next
    case False
    then have mm: "?m = 0 - (postVal - preVal)" by simp
    have "int16 (0 - (postVal - preVal)) = 0 - (postVal - preVal)"
      using assms by (simp add: int16_id)
    moreover have "int16 (preVal - d) = preVal - d"
      using d(2,3) assms False by (intro int16_id) auto
    ultimately show ?thesis using False d(1)
      by (simp add: transition_def tDur el diff flip: mm)
  qed
  with d show ?thesis by blast
qed

lemma transition_unified:
  assumes "pEnd < seconds" "seconds < pNextStart" "pNextStart - pEnd \<le> 32767"
    "0 \<le> preVal" "preVal \<le> 255" "0 \<le> postVal" "postVal \<le> 255"
    "postVal \<le> preVal \<or> preVal = 0"
  shows "transition seconds pEnd pNextStart preVal postVal =
           Inr (unified_float preVal (seconds - pEnd) (postVal - preVal) (pNextStart - pEnd))"
    and "unified_float preVal (seconds - pEnd) (postVal - preVal) (pNextStart - pEnd) =
           spec_intensity preVal (seconds - pEnd) (postVal - preVal) (pNextStart - pEnd) \<or>
         (pNextStart - pEnd) dvd (seconds - pEnd) * (postVal - preVal) \<and>
         unified_float preVal (seconds - pEnd) (postVal - preVal) (pNextStart - pEnd) =
           spec_intensity preVal (seconds - pEnd) (postVal - preVal) (pNextStart - pEnd)
             - sgn (postVal - preVal)"
proof -
  let ?e = "seconds - pEnd" and ?g = "pNextStart - pEnd" and ?delta = "postVal - preVal"
  have g: "0 < ?g" and e: "0 \<le> ?e" using assms by auto
  from transition_value[OF assms(1-7)] obtain d where
    d: "ramp ?e \<bar>?delta\<bar> ?g = Inr d" "0 \<le> d"
      "d = ?e * \<bar>?delta\<bar> div ?g \<or> (?g dvd ?e * \<bar>?delta\<bar> \<and> d = ?e * \<bar>?delta\<bar> div ?g - 1)"
      "transition seconds pEnd pNextStart preVal postVal = Inr (if 0 < ?delta then d else preVal - d)"
    by blast
  note tr = ramp_truncate[OF d(1)]
  have both: "transition seconds pEnd pNextStart preVal postVal = Inr (unified_float preVal ?e ?delta ?g) \<and>
    (unified_float preVal ?e ?delta ?g = spec_intensity preVal ?e ?delta ?g \<or>
     ?g dvd ?e * ?delta \<and> unified_float preVal ?e ?delta ?g = spec_intensity preVal ?e ?delta ?g - sgn ?delta)"
  proof (cases "0 < ?delta")
    case True
    then have p0: "preVal = 0" using assms(8) by auto
    have abs: "\<bar>?delta\<bar> = ?delta" using True by simp
    have "d = truncate (fmul (to_float ?e) (fdiv (to_float ?delta) (to_float ?g)))"
      using tr unfolding abs .
    then have u: "unified_float preVal ?e ?delta ?g = d"
      by (simp add: unified_float_def p0)
    have "0 \<le> ?e * ?delta" using e True by simp
    then have s: "spec_intensity preVal ?e ?delta ?g = ?e * ?delta div ?g"
      using truncate_quotient_nonneg[of "?e * ?delta" ?g] g by (simp add: spec_intensity_def p0)
    show ?thesis using d(3,4) True by (auto simp add: u s abs)
  next
    case False
    then have abs: "\<bar>?delta\<bar> = - ?delta" by simp
    have "d = - truncate (fmul (to_float ?e) (fdiv (to_float ?delta) (to_float ?g)))"
      using tr unfolding abs float_product_neg truncate_neg .
    then have u: "unified_float preVal ?e ?delta ?g = preVal - d"
      by (simp add: unified_float_def)
    have "?e * ?delta \<le> 0" using e False by (simp add: mult_le_0_iff)
    moreover have "- (?e * ?delta) = ?e * \<bar>?delta\<bar>" unfolding abs by (simp add: algebra_simps)
    ultimately have "truncate (of_int (?e * ?delta) / of_int ?g) = - (?e * \<bar>?delta\<bar> div ?g)"
      using truncate_quotient_nonpos[of "?e * ?delta" ?g] g by (simp only:)
    then have s: "spec_intensity preVal ?e ?delta ?g = preVal - ?e * \<bar>?delta\<bar> div ?g"
      by (simp only: spec_intensity_def)
    have dv: "?g dvd ?e * \<bar>?delta\<bar> \<longleftrightarrow> ?g dvd ?e * ?delta"
      unfolding abs by (simp only: mult_minus_right dvd_minus_iff)
    have sg: "sgn ?delta = - 1" if "d = ?e * \<bar>?delta\<bar> div ?g - 1"
    proof -
      have "?delta \<noteq> 0" using that d(2) by auto
      then show ?thesis using False by (simp add: sgn_if)
    qed
    have tv: "transition seconds pEnd pNextStart preVal postVal = Inr (unified_float preVal ?e ?delta ?g)"
      using d(4) False by (simp only: u if_False)
    from d(3) have "unified_float preVal ?e ?delta ?g = spec_intensity preVal ?e ?delta ?g \<or>
       ?g dvd ?e * ?delta \<and>
       unified_float preVal ?e ?delta ?g = spec_intensity preVal ?e ?delta ?g - sgn ?delta"
    proof
      assume "d = ?e * \<bar>?delta\<bar> div ?g"
      then show ?thesis by (simp only: u s simp_thms)
    next
      assume a: "?g dvd ?e * \<bar>?delta\<bar> \<and> d = ?e * \<bar>?delta\<bar> div ?g - 1"
      then have "?g dvd ?e * ?delta" by (simp only: dv)
      moreover have "unified_float preVal ?e ?delta ?g = spec_intensity preVal ?e ?delta ?g - sgn ?delta"
        using a sg by (simp add: u s)
      ultimately show ?thesis by blast
    qed
    with tv show ?thesis by blast
  qed
  from both show "transition seconds pEnd pNextStart preVal postVal =
           Inr (unified_float preVal (seconds - pEnd) (postVal - preVal) (pNextStart - pEnd))"
    by simp
  from both show "unified_float preVal (seconds - pEnd) (postVal - preVal) (pNextStart - pEnd) =
           spec_intensity preVal (seconds - pEnd) (postVal - preVal) (pNextStart - pEnd) \<or>
         (pNextStart - pEnd) dvd (seconds - pEnd) * (postVal - preVal) \<and>
         unified_float preVal (seconds - pEnd) (postVal - preVal) (pNextStart - pEnd) =
           spec_intensity preVal (seconds - pEnd) (postVal - preVal) (pNextStart - pEnd)
             - sgn (postVal - preVal)"
    by simp
qed

subsection \<open>The value inside a transition\<close>

text \<open>
  C1 says that inside a transition the intensity is
  \<open>periods[i].intensity + round_toward_zero(elapsed * delta / gapDuration)\<close>, exactly as
  in integer division. The source divides and multiplies in \<open>float\<close>: for a fade from 250
  at 08:00 to 0 at 08:01, thirty seconds into the fade, it gives 126 where the integer
  formula gives 125.
\<close>

theorem gap_not_integer_division:
  "valid_schedule
     [(0, 0, 8, 0, 250), (8, 1, 24, 0, 0), (0, 0, 0, 0, 0), (0, 0, 0, 0, 0), (0, 0, 0, 0, 0)] \<and>
   GetSeconds 8 0 0 < GetSeconds 8 0 30 \<and> GetSeconds 8 0 30 < GetSeconds 8 1 0 \<and>
   period_loop
     [(0, 0, 8, 0, 250), (8, 1, 24, 0, 0), (0, 0, 0, 0, 0), (0, 0, 0, 0, 0), (0, 0, 0, 0, 0)]
     (GetSeconds 8 0 30) 0 = Inr (Some 126) \<and>
   spec_intensity 250 30 (0 - 250) 60 = 125"
  by (intro conjI; code_simp)

text \<open>
  The increasing branch of the source also leaves \<open>preVal\<close> out of its sum, which the
  decreasing branch does not: a fade from 10 at 08:00 to 235 at 08:30 stands at 112 after
  fifteen minutes, not at 122.
\<close>

lemma increasing_branch_omits_preVal:
  "valid_schedule
     [(0, 0, 8, 0, 10), (8, 30, 24, 0, 235), (0, 0, 0, 0, 0), (0, 0, 0, 0, 0), (0, 0, 0, 0, 0)] \<and>
   period_loop
     [(0, 0, 8, 0, 10), (8, 30, 24, 0, 235), (0, 0, 0, 0, 0), (0, 0, 0, 0, 0), (0, 0, 0, 0, 0)]
     (GetSeconds 8 15 0) 0 = Inr (Some 112) \<and>
   spec_intensity 10 900 225 1800 = 122"
  by (intro conjI; code_simp)

text \<open>
  C1, as the code has it. In a valid schedule, take a time strictly inside the transition
  between the periods \<open>i\<close> and \<open>i + 1\<close>, a transition of at most 32767 seconds in which
  the intensity does not increase, or increases from 0. The resolved intensity is
  \<open>periods[i].intensity + round_toward_zero(elapsed * (delta / gapDuration))\<close> with the
  quotient and then the product rounded to \<open>float\<close>. That is the value of the integer
  formula, except that it can be one unit nearer to \<open>periods[i].intensity\<close> when
  \<open>gapDuration\<close> divides \<open>elapsed * delta\<close>.
\<close>

theorem gap_value:
  assumes "valid_schedule rows" "i < terminal rows"
    "period_end (rows ! i) < seconds" "seconds < period_start (rows ! Suc i)"
    "period_start (rows ! Suc i) - period_end (rows ! i) \<le> 32767"
    "INTENSITY (rows ! Suc i) \<le> INTENSITY (rows ! i) \<or> INTENSITY (rows ! i) = 0"
  shows "period_loop rows seconds 0 =
           Inr (Some (unified_float (INTENSITY (rows ! i)) (seconds - period_end (rows ! i))
                  (INTENSITY (rows ! Suc i) - INTENSITY (rows ! i))
                  (period_start (rows ! Suc i) - period_end (rows ! i)))) \<and>
         (unified_float (INTENSITY (rows ! i)) (seconds - period_end (rows ! i))
            (INTENSITY (rows ! Suc i) - INTENSITY (rows ! i))
            (period_start (rows ! Suc i) - period_end (rows ! i)) =
          spec_intensity (INTENSITY (rows ! i)) (seconds - period_end (rows ! i))
            (INTENSITY (rows ! Suc i) - INTENSITY (rows ! i))
            (period_start (rows ! Suc i) - period_end (rows ! i)) \<or>
          (period_start (rows ! Suc i) - period_end (rows ! i)) dvd
            (seconds - period_end (rows ! i)) * (INTENSITY (rows ! Suc i) - INTENSITY (rows ! i)) \<and>
          unified_float (INTENSITY (rows ! i)) (seconds - period_end (rows ! i))
            (INTENSITY (rows ! Suc i) - INTENSITY (rows ! i))
            (period_start (rows ! Suc i) - period_end (rows ! i)) =
          spec_intensity (INTENSITY (rows ! i)) (seconds - period_end (rows ! i))
            (INTENSITY (rows ! Suc i) - INTENSITY (rows ! i))
            (period_start (rows ! Suc i) - period_end (rows ! i))
          - sgn (INTENSITY (rows ! Suc i) - INTENSITY (rows ! i)))"
proof -
  have pre: "0 \<le> INTENSITY (rows ! i)" "INTENSITY (rows ! i) \<le> 255"
    using valid_intensity[OF assms(1), of i] assms(2) by simp_all
  have post: "0 \<le> INTENSITY (rows ! Suc i)" "INTENSITY (rows ! Suc i) \<le> 255"
    using valid_intensity[OF assms(1), of "Suc i"] assms(2) by simp_all
  note tu = transition_unified[OF assms(3,4,5) pre post assms(6)]
  show ?thesis
    using period_loop_in_gap[OF assms(1-4)] tu(2) by (simp add: tu(1))
qed

text \<open>
  Channel 0 of the sketch, five minutes into its ten-minute fade from 255 to 0 at 11:00.
\<close>

theorem gap_value_witness:
  "valid_schedule (lightMatrix ! 0) \<and> 1 < terminal (lightMatrix ! 0) \<and>
   period_end (lightMatrix ! 0 ! 1) < 39900 \<and> 39900 < period_start (lightMatrix ! 0 ! Suc 1) \<and>
   period_loop (lightMatrix ! 0) 39900 0 = Inr (Some 128) \<and>
   spec_intensity 255 300 (- 255) 600 = 128"
proof -
  have h: "1 < terminal (lightMatrix ! 0)"
    "period_end (lightMatrix ! 0 ! 1) < 39900" "39900 < period_start (lightMatrix ! 0 ! Suc 1)"
    "period_start (lightMatrix ! 0 ! Suc 1) - period_end (lightMatrix ! 0 ! 1) \<le> 32767"
    "INTENSITY (lightMatrix ! 0 ! Suc 1) \<le> INTENSITY (lightMatrix ! 0 ! 1) \<or>
     INTENSITY (lightMatrix ! 0 ! 1) = 0"
    by code_simp+
  have v: "INTENSITY (lightMatrix ! 0 ! 1) = 255" "INTENSITY (lightMatrix ! 0 ! Suc 1) = 0"
    "period_end (lightMatrix ! 0 ! 1) = 39600" "period_start (lightMatrix ! 0 ! Suc 1) = 40200"
    by code_simp+
  have u: "unified_float 255 300 (- 255) 600 = 128" by code_simp
  have s: "spec_intensity 255 300 (- 255) 600 = 128" by code_simp
  from gap_value[OF channel_0_valid h, THEN conjunct1] have
    "period_loop (lightMatrix ! 0) 39900 0 = Inr (Some 128)"
    unfolding v by (simp add: u)
  with channel_0_valid h s show ?thesis by simp
qed

subsection \<open>The decreasing branch and the single formula\<close>

text \<open>
  C8 says that the decreasing branch, \<open>preVal - (int)(elapsed * ((float)(0 - delta) / tDur))\<close>,
  gives the value of the single integer formula of the specification. For a fade from 126
  to 0 over 60 seconds it gives 64 after 30 seconds, where the integer formula gives 63.
\<close>

theorem decreasing_not_integer_division:
  "(28800::int) < 28830 \<and> (28830::int) < 28860 \<and>
   transition 28830 28800 28860 126 0 = Inr 64 \<and> spec_intensity 126 30 (0 - 126) 60 = 63"
  by (intro conjI; code_simp)

text \<open>
  C8, as the code has it. Inside a transition of at most 32767 seconds between intensities
  from 0 to 255, the decreasing branch gives the single formula
  \<open>preVal + round_toward_zero(elapsed * (delta / gapDuration))\<close> with \<open>delta\<close> negative,
  evaluated in \<open>float\<close>. That is the value of the integer formula, or one more than it
  when \<open>gapDuration\<close> divides \<open>elapsed * delta\<close>.
\<close>

theorem decreasing_branch:
  assumes "pEnd < seconds" "seconds < pNextStart" "pNextStart - pEnd \<le> 32767"
    "0 \<le> postVal" "postVal < preVal" "preVal \<le> 255"
  shows "transition seconds pEnd pNextStart preVal postVal =
           Inr (unified_float preVal (seconds - pEnd) (postVal - preVal) (pNextStart - pEnd)) \<and>
         (unified_float preVal (seconds - pEnd) (postVal - preVal) (pNextStart - pEnd) =
            spec_intensity preVal (seconds - pEnd) (postVal - preVal) (pNextStart - pEnd) \<or>
          (pNextStart - pEnd) dvd (seconds - pEnd) * (postVal - preVal) \<and>
          unified_float preVal (seconds - pEnd) (postVal - preVal) (pNextStart - pEnd) =
            spec_intensity preVal (seconds - pEnd) (postVal - preVal) (pNextStart - pEnd) + 1)"
proof -
  have r: "0 \<le> preVal" "postVal \<le> 255" "postVal \<le> preVal \<or> preVal = 0"
    using assms by auto
  have "sgn (postVal - preVal) = - 1" using assms(5) by (simp add: sgn_if)
  with transition_unified[OF assms(1,2,3) r(1) assms(6) assms(4) r(2,3)]
  show ?thesis by simp
qed

theorem decreasing_branch_witness:
  "(39600::int) < 39900 \<and> (39900::int) < 40200 \<and>
   transition 39900 39600 40200 255 0 = Inr 128 \<and>
   spec_intensity 255 300 (- 255) 600 = 128"
proof -
  have u: "unified_float 255 300 (- 255) 600 = 128" by code_simp
  have s: "spec_intensity 255 300 (- 255) 600 = 128" by code_simp
  from decreasing_branch[of 39600 39900 40200 0 255]
  have "transition 39900 39600 40200 255 0 = Inr 128"
    by (simp add: u)
  with s show ?thesis by simp
qed

subsection \<open>Transitions longer than an \<open>int\<close> can hold\<close>

text \<open>
  The duration of a transition is a difference of two \<open>long\<close>s that the source stores in
  \<open>int tDur\<close>. A transition of more than 32767 seconds (9 h 6 min 7 s) does not fit:
  from 01:00 to 12:00 the 39600 seconds become \<open>tDur = -25936\<close>. The table below is
  valid, with channel 0 fading from 0 at 01:00 to 255 at 12:00.
\<close>

lemma long_fade_valid:
  "valid_matrix
     [[(0, 0, 1, 0, 0), (12, 0, 24, 0, 255), (0, 0, 0, 0, 0), (0, 0, 0, 0, 0), (0, 0, 0, 0, 0)],
      lightMatrix ! 1] \<and>
   int16 (long32 (GetSeconds 12 0 0 - GetSeconds 1 0 0)) = - 25936"
  by (intro conjI; code_simp)

text \<open>
  C2 says that every channel of a valid table gets an intensity from 0 to 255 at every
  time of the day. On the table above channel 0 gets -353 at 11:00:00.
\<close>

theorem long_fade_out_of_range:
  "UpdateLights
     [[(0, 0, 1, 0, 0), (12, 0, 24, 0, 255), (0, 0, 0, 0, 0), (0, 0, 0, 0, 0), (0, 0, 0, 0, 0)],
      lightMatrix ! 1]
     (GetSeconds 11 0 0) [0, 0] = Inr [- 353, 255]"
  by code_simp

text \<open>
  When every transition of a valid schedule lasts at most 32767 seconds, the scan does
  give an intensity from 0 to 255 at every time up to 86400.
\<close>

lemma in_range_when_gaps_fit:
  assumes "valid_schedule rows" "seconds \<le> 86400"
    "\<And>i. i < terminal rows \<Longrightarrow> period_start (rows ! Suc i) - period_end (rows ! i) \<le> 32767"
  shows "\<exists>v. period_loop rows seconds 0 = Inr (Some v) \<and> 0 \<le> v \<and> v \<le> 255"
proof -
  note k = valid_terminal[OF assms(1)]
  have le: "seconds \<le> period_end (rows ! terminal rows)" using k(3) assms(2) by simp
  have z: "0 \<le> terminal rows" by simp
  from k(1,2) le z show ?thesis
  proof (induction rule: period_loop_cases)
    case (select i)
    then show ?case using valid_intensity[OF assms(1), of i] by simp
  next
    case (gap i)
    have pre: "0 \<le> INTENSITY (rows ! i)" "INTENSITY (rows ! i) \<le> 255"
      using valid_intensity[OF assms(1), of i] gap by simp_all
    have post: "0 \<le> INTENSITY (rows ! Suc i)" "INTENSITY (rows ! Suc i) \<le> 255"
      using valid_intensity[OF assms(1), of "Suc i"] gap by simp_all
    from transition_value[OF gap(3,4) assms(3)[OF gap(2)] pre post] pre post
    show ?case by (auto split: if_splits)
  qed
qed

text \<open>
  C7 says that the intensity does not decrease through a transition to a higher
  intensity. In the fade of the table above, from 0 at 01:00 to 255 at 12:00, channel 0
  stands at -35 at 02:00:00 and at -353 at 11:00:00.
\<close>

theorem long_fade_not_monotone:
  "GetSeconds 1 0 0 < GetSeconds 2 0 0 \<and> GetSeconds 2 0 0 < GetSeconds 11 0 0 \<and>
   GetSeconds 11 0 0 < GetSeconds 12 0 0 \<and>
   period_loop
     [(0, 0, 1, 0, 0), (12, 0, 24, 0, 255), (0, 0, 0, 0, 0), (0, 0, 0, 0, 0), (0, 0, 0, 0, 0)]
     (GetSeconds 2 0 0) 0 = Inr (Some (- 35)) \<and>
   period_loop
     [(0, 0, 1, 0, 0), (12, 0, 24, 0, 255), (0, 0, 0, 0, 0), (0, 0, 0, 0, 0), (0, 0, 0, 0, 0)]
     (GetSeconds 11 0 0) 0 = Inr (Some (- 353))"
  by (intro conjI; code_simp)

text \<open>
  Through a transition of at most 32767 seconds the intensity is monotone: it does not
  decrease towards a higher intensity and does not increase towards a lower one.
\<close>

lemma monotone_when_gap_fits:
  assumes "valid_schedule rows" "i < terminal rows"
    "period_end (rows ! i) < t1" "t1 \<le> t2" "t2 < period_start (rows ! Suc i)"
    "period_start (rows ! Suc i) - period_end (rows ! i) \<le> 32767"
  shows "\<exists>v1 v2. period_loop rows t1 0 = Inr (Some v1) \<and> period_loop rows t2 0 = Inr (Some v2) \<and>
           (INTENSITY (rows ! i) < INTENSITY (rows ! Suc i) \<longrightarrow> v1 \<le> v2) \<and>
           (INTENSITY (rows ! Suc i) < INTENSITY (rows ! i) \<longrightarrow> v2 \<le> v1)"
proof -
  let ?pre = "INTENSITY (rows ! i)" and ?post = "INTENSITY (rows ! Suc i)"
  let ?pe = "period_end (rows ! i)" and ?ps = "period_start (rows ! Suc i)"
  have pre: "0 \<le> ?pre" "?pre \<le> 255"
    using valid_intensity[OF assms(1), of i] assms(2) by simp_all
  have post: "0 \<le> ?post" "?post \<le> 255"
    using valid_intensity[OF assms(1), of "Suc i"] assms(2) by simp_all
  have in1: "?pe < t1" "t1 < ?ps" and in2: "?pe < t2" "t2 < ?ps" using assms(3-5) by simp_all
  from transition_value[OF in1 assms(6) pre post] obtain d1 where
    d1: "ramp (t1 - ?pe) \<bar>?post - ?pre\<bar> (?ps - ?pe) = Inr d1"
      "transition t1 ?pe ?ps ?pre ?post = Inr (if 0 < ?post - ?pre then d1 else ?pre - d1)"
    by blast
  from transition_value[OF in2 assms(6) pre post] obtain d2 where
    d2: "ramp (t2 - ?pe) \<bar>?post - ?pre\<bar> (?ps - ?pe) = Inr d2"
      "transition t2 ?pe ?ps ?pre ?post = Inr (if 0 < ?post - ?pre then d2 else ?pre - d2)"
    by blast
  have "d1 \<le> d2"
    using in1 in2 assms(4) by (intro ramp_mono[OF _ _ _ _ d1(1) d2(1)]) simp_all
  then show ?thesis
    using period_loop_in_gap[OF assms(1,2) in1] period_loop_in_gap[OF assms(1,2) in2] d1(2) d2(2)
    by auto
qed

end
